theory Spec2Isabelle
  imports Main "HOL-Library.AList" "HOL-Library.Multiset"
begin

section \<open>Differential matching of two DFXML manifests\<close>

text \<open>
  A shallow embedding of \<^verbatim>\<open>dfxml/bin/make_differential_dfxml.py\<close>.
  Python dictionaries keep insertion order, and the program depends on it (the ordinals
  of volumes are computed from dictionary sizes, the passes walk the dictionaries), so a
  dictionary is an association list: \<open>AList.update\<close> is \<^verbatim>\<open>d[k] = v\<close> (in place for a
  key already there, at the end for a new one), \<open>AList.delete\<close> is \<^verbatim>\<open>d.pop(k)\<close>,
  \<open>map_of\<close> is the lookup. Every exception the program can raise is a value of
  \<open>error\<close>, and a function that can raise returns \<open>error + 'a\<close>.
\<close>

subsection \<open>Strings\<close>

text \<open>\<^verbatim>\<open>os.path.basename\<close>: what follows the last slash.\<close>

definition basename :: "string \<Rightarrow> string" where
  "basename p = rev (takeWhile (\<lambda>c. c \<noteq> CHR ''/'') (rev p))"

subsection \<open>Records of the object library\<close>

datatype error = ValueError | AttributeError | KeyError

record VolumeObject =
  partition_offset :: "int option"
  ftype_str :: "string option"
  vprops :: "(string \<times> string) list"

text \<open>
  A volume held by the program: the parsed object with the fields the program sets on
  it (\<^verbatim>\<open>original_volume\<close>, \<^verbatim>\<open>diffs\<close>, \<^verbatim>\<open>annos\<close>).
\<close>

record VolumeEntry =
  vobj :: VolumeObject
  original_volume :: "VolumeObject option"
  vdiffs :: "string set"
  vannos :: "string set"

type_synonym ByteRun = "int \<times> int"

record FileObject =
  filename :: "string option"
  inode :: "int option"
  partition :: "nat option"
  alloc :: "bool option"
  sha1 :: "string option"
  byte_runs :: "ByteRun list option"
  volume_object :: "VolumeObject option"
  annos :: "string set"
  props :: "(string \<times> string) list"

text \<open>
  A file object after the program has touched it: \<^verbatim>\<open>original_fileobject\<close> and
  the \<^verbatim>\<open>diffs\<close> that \<^verbatim>\<open>compare_to_original\<close> leaves on it.
\<close>

record FileEntry =
  fobj :: FileObject
  original_fileobject :: "FileObject option"
  diffs :: "string set"

datatype event = Start | End

datatype parsed =
  DFXML_parsed
  | Volume_parsed VolumeObject
  | File_parsed FileObject
  | Other_parsed

text \<open>
  The object library \<^verbatim>\<open>dfxml.objects\<close> is not part of the program: its parser,
  its comparison of two objects and its joining of byte runs are parameters.
  \<open>compare_file new original file_ignores\<close> is the set that
  \<^verbatim>\<open>new.compare_to_original(file_ignores=...)\<close> leaves in \<^verbatim>\<open>new.diffs\<close>.
  The method \<^verbatim>\<open>str.lower\<close> of the language is a parameter as well: it follows the
  case mappings of Unicode, which the program does not define.
\<close>

record externals =
  iterparse :: "string \<Rightarrow> (event \<times> parsed) list"
  compare_file :: "FileObject \<Rightarrow> FileObject \<Rightarrow> string set \<Rightarrow> string set"
  compare_volume :: "VolumeObject \<Rightarrow> VolumeObject \<Rightarrow> string set"
  glom :: "ByteRun list \<Rightarrow> ByteRun \<Rightarrow> ByteRun list"
  str_lower :: "string \<Rightarrow> string"

record config =
  annotate_matches :: bool
  diff_mode :: string
  glom_byte_runs :: bool
  ignore_filename_function :: "string option \<Rightarrow> bool"
  rename_requires_hash :: bool
  retain_unchanged :: bool
  ignore_properties :: "string set"

subsection \<open>The helpers of the module\<close>

definition lower_ftype_str :: "externals \<Rightarrow> VolumeObject \<Rightarrow> string option" where
  "lower_ftype_str lib vo =
     (case ftype_str vo of None \<Rightarrow> None | Some f \<Rightarrow> Some (str_lower lib f))"

definition ignorable_name :: "string option \<Rightarrow> bool" where
  "ignorable_name fn =
     (case fn of
        None \<Rightarrow> False
      | Some n \<Rightarrow> basename n \<in> set [''.'', ''..'', ''$FAT1'', ''$FAT2'', ''$OrphanFiles''])"

definition diff_mask_set :: "config \<Rightarrow> string set" where
  "diff_mask_set cfg =
     (if diff_mode cfg = ''idifference''
      then {''atime'', ''byte_runs'', ''crtime'', ''ctime'', ''filename'', ''filesize'',
            ''md5'', ''mtime'', ''sha1''}
      else {})"

text \<open>
  \<^verbatim>\<open>d.diff_file_ignores |= ignore_properties\<close>, on the empty set of a new document.
\<close>

definition diff_file_ignores :: "config \<Rightarrow> string set" where
  "diff_file_ignores cfg = ignore_properties cfg"

subsection \<open>The state of the function\<close>

text \<open>
  The local variables of \<^verbatim>\<open>make_differential_dfxml\<close>, in two groups: those of
  the volume matching and those of the file matching. An identity key is
  (partition, inode, file name); a volume key is (offset, lower-case file system type).
\<close>

type_synonym fkey = "nat option \<times> int option \<times> string option"
type_synonym vkey = "int \<times> string option"

record vstate =
  old_volumes :: "(vkey \<times> VolumeEntry) list"
  new_volumes :: "(vkey \<times> VolumeEntry) list"
  matched_volumes :: "(vkey \<times> VolumeEntry) list"
  volumes_encounter_order :: "(vkey \<times> nat) list"

record fstate =
  fileobjects_changed :: "FileEntry list"
  fileobjects_unchanged :: "FileEntry list"
  fileobjects_renamed :: "FileEntry list"
  fileobjects_deleted :: "FileEntry list"
  old_fis :: "(fkey \<times> FileObject) list"
  new_fis :: "(fkey \<times> FileObject) list"
  old_fis_unalloc :: "(fkey \<times> FileObject list) list"
  new_fis_unalloc :: "(fkey \<times> FileObject list) list"

definition init_vstate :: vstate where
  "init_vstate =
     \<lparr>old_volumes = [], new_volumes = [], matched_volumes = [], volumes_encounter_order = []\<rparr>"

definition init_fstate :: fstate where
  "init_fstate =
     \<lparr>fileobjects_changed = [], fileobjects_unchanged = [], fileobjects_renamed = [],
      fileobjects_deleted = [], old_fis = [], new_fis = [], old_fis_unalloc = [],
      new_fis_unalloc = []\<rparr>"

text \<open>A loop whose body can raise: the first exception ends it.\<close>

fun fold_err :: "('a \<Rightarrow> 's \<Rightarrow> error + 's) \<Rightarrow> 'a list \<Rightarrow> 's \<Rightarrow> error + 's" where
  "fold_err f [] s = Inr s"
| "fold_err f (x # xs) s = (case f x s of Inl e \<Rightarrow> Inl e | Inr s' \<Rightarrow> fold_err f xs s')"

subsection \<open>Reading one manifest\<close>

text \<open>The start of each round of \<^verbatim>\<open>for infile in [pre, post]\<close>.\<close>

definition rotate_volumes :: "vstate \<Rightarrow> vstate" where
  "rotate_volumes vs =
     vs\<lparr>old_volumes := foldl (\<lambda>ov (k, v). AList.update k v ov) (new_volumes vs) (matched_volumes vs),
        new_volumes := [],
        matched_volumes := []\<rparr>"

definition rotate_files :: "fstate \<Rightarrow> fstate" where
  "rotate_files fs =
     fs\<lparr>old_fis := new_fis fs, new_fis := [],
        old_fis_unalloc := new_fis_unalloc fs, new_fis_unalloc := []\<rparr>"

text \<open>
  A volume at its start event. A volume already in \<^verbatim>\<open>new_volumes\<close> only logs a
  warning. \<^verbatim>\<open>(old_volumes and len(old_volumes)) or 0\<close> is written out.
\<close>

definition process_volume :: "externals \<Rightarrow> vstate \<Rightarrow> VolumeObject \<Rightarrow> error + vstate" where
  "process_volume lib vs new_obj =
     (case partition_offset new_obj of
        None \<Rightarrow> Inl AttributeError
      | Some offset \<Rightarrow>
          let k = (offset, lower_ftype_str lib new_obj) in
          (case map_of (old_volumes vs) k of
             Some old_vobj \<Rightarrow>
               Inr (vs\<lparr>old_volumes := AList.delete k (old_volumes vs),
                       matched_volumes :=
                         AList.update k
                           \<lparr>vobj = new_obj, original_volume = Some (vobj old_vobj),
                            vdiffs = compare_volume lib new_obj (vobj old_vobj), vannos = {}\<rparr>
                           (matched_volumes vs)\<rparr>)
           | None \<Rightarrow>
               let nv = AList.update k
                          \<lparr>vobj = new_obj, original_volume = None, vdiffs = {}, vannos = {}\<rparr>
                          (new_volumes vs)
               in Inr (vs\<lparr>new_volumes := nv,
                          volumes_encounter_order :=
                            AList.update k
                              (length nv
                               + (if old_volumes vs \<noteq> [] then length (old_volumes vs) else 0)
                               + length (matched_volumes vs))
                              (volumes_encounter_order vs)\<rparr>)))"

definition glom_runs :: "externals \<Rightarrow> FileObject \<Rightarrow> FileObject" where
  "glom_runs lib new_obj =
     (case byte_runs new_obj of
        Some (r # rs) \<Rightarrow> new_obj\<lparr>byte_runs := Some (foldl (glom lib) [] (r # rs))\<rparr>
      | _ \<Rightarrow> new_obj)"

text \<open>
  \<^verbatim>\<open>new_obj.partition = volumes_encounter_order[(vo.partition_offset, fts)]\<close>:
  a key that is not in the dictionary raises.
\<close>

definition normalize_partition ::
  "externals \<Rightarrow> (vkey \<times> nat) list \<Rightarrow> FileObject \<Rightarrow> error + FileObject" where
  "normalize_partition lib order new_obj =
     (case volume_object new_obj of
        None \<Rightarrow> Inr (new_obj\<lparr>partition := None\<rparr>)
      | Some vo \<Rightarrow>
          (case partition_offset vo of
             None \<Rightarrow> Inl KeyError
           | Some offset \<Rightarrow>
               (case map_of order (offset, lower_ftype_str lib vo) of
                  None \<Rightarrow> Inl KeyError
                | Some n \<Rightarrow> Inr (new_obj\<lparr>partition := Some n\<rparr>))))"

definition identity_key :: "config \<Rightarrow> FileObject \<Rightarrow> fkey" where
  "identity_key cfg new_obj =
     (if ''partition'' \<in> ignore_properties cfg then None else partition new_obj,
      if ''inode'' \<in> ignore_properties cfg then None else inode new_obj,
      if ''filename'' \<in> ignore_properties cfg then None else filename new_obj)"

text \<open>\<^verbatim>\<open>new_fis_unalloc[key].append(new_obj)\<close> on a \<^verbatim>\<open>defaultdict(list)\<close>.\<close>

definition append_unalloc ::
  "fkey \<Rightarrow> FileObject \<Rightarrow> (fkey \<times> FileObject list) list \<Rightarrow> (fkey \<times> FileObject list) list" where
  "append_unalloc key new_obj d =
     AList.update key ((case map_of d key of None \<Rightarrow> [] | Some l \<Rightarrow> l) @ [new_obj]) d"

text \<open>
  A file object: the filter on names, the byte runs, the partition, the identity key,
  then either the unallocated list, or (first manifest) the dictionary, or (second
  manifest) the direct lookup in the first manifest's dictionary.
\<close>

definition process_file ::
  "externals \<Rightarrow> config \<Rightarrow> bool \<Rightarrow> (vkey \<times> nat) list \<Rightarrow> fstate \<Rightarrow> FileObject \<Rightarrow> error + fstate" where
  "process_file lib cfg is_pre order fs parsed_obj =
     (if ignore_filename_function cfg (filename parsed_obj) then Inr fs
      else
        (case normalize_partition lib order
                (if glom_byte_runs cfg then glom_runs lib parsed_obj else parsed_obj) of
           Inl e \<Rightarrow> Inl e
         | Inr new_obj \<Rightarrow>
             let key = identity_key cfg new_obj in
             if alloc new_obj \<noteq> Some True
             then Inr (fs\<lparr>new_fis_unalloc := append_unalloc key new_obj (new_fis_unalloc fs)\<rparr>)
             else if is_pre
             then Inr (fs\<lparr>new_fis := AList.update key new_obj (new_fis fs)\<rparr>)
             else
               (case map_of (old_fis fs) key of
                  Some old_fobj \<Rightarrow>
                    let raw = compare_file lib new_obj old_fobj (diff_file_ignores cfg);
                        entry = \<lparr>fobj = new_obj, original_fileobject = Some old_fobj, diffs = raw\<rparr>;
                        d1 = raw - diff_file_ignores cfg;
                        d2 = (if diff_mask_set cfg \<noteq> {} then d1 \<inter> diff_mask_set cfg else d1);
                        fs1 = fs\<lparr>old_fis := AList.delete key (old_fis fs)\<rparr>
                    in if d2 \<noteq> {}
                       then Inr (fs1\<lparr>fileobjects_changed := fileobjects_changed fs1 @ [entry]\<rparr>)
                       else if retain_unchanged cfg
                       then Inr (fs1\<lparr>fileobjects_unchanged := fileobjects_unchanged fs1 @ [entry]\<rparr>)
                       else Inr fs1
                | None \<Rightarrow> Inr (fs\<lparr>new_fis := AList.update key new_obj (new_fis fs)\<rparr>))))"

text \<open>
  One turn of the loop over the parsed objects. The document object only hands over
  its namespaces, the end of a volume and any other object are skipped.
\<close>

definition process_obj ::
  "externals \<Rightarrow> config \<Rightarrow> bool \<Rightarrow> event \<times> parsed \<Rightarrow> vstate \<times> fstate \<Rightarrow> error + vstate \<times> fstate" where
  "process_obj lib cfg is_pre x st =
     (case snd x of
        DFXML_parsed \<Rightarrow> Inr st
      | Volume_parsed v \<Rightarrow>
          (if fst x = End then Inr st
           else (case process_volume lib (fst st) v of
                   Inl e \<Rightarrow> Inl e
                 | Inr vs \<Rightarrow> Inr (vs, snd st)))
      | File_parsed f \<Rightarrow>
          (case process_file lib cfg is_pre (volumes_encounter_order (fst st)) (snd st) f of
             Inl e \<Rightarrow> Inl e
           | Inr fs \<Rightarrow> Inr (fst st, fs))
      | Other_parsed \<Rightarrow> Inr st)"

subsection \<open>The passes over what the direct lookup left\<close>

text \<open>
  \<^verbatim>\<open>_make_name_map\<close>: (partition, inode) to the set of file names. The set is a
  list without repetition; the program only takes its size, and its element when the
  size is one.
\<close>

type_synonym name_map = "((nat option \<times> int option) \<times> string option list) list"

definition make_name_map :: "(fkey \<times> FileObject) list \<Rightarrow> name_map" where
  "make_name_map d =
     foldl (\<lambda>retdict (p, i, fn).
              AList.update (p, i)
                (List.insert fn (case map_of retdict (p, i) of None \<Rightarrow> [] | Some s \<Rightarrow> s))
                retdict)
       [] (map fst d)"

text \<open>
  One turn of the loop over the keys of \<^verbatim>\<open>new_inode_names\<close>. The sets of
  names are only read when they have one element, which \<open>hd\<close> gives; the two
  \<^verbatim>\<open>pop()\<close> empty them. The dictionaries are read with \<^verbatim>\<open>d[k]\<close>, which
  raises on a missing key.
\<close>

definition rename_step ::
  "externals \<Rightarrow> config \<Rightarrow> nat option \<times> int option \<Rightarrow> name_map \<times> name_map \<times> fstate
     \<Rightarrow> error + name_map \<times> name_map \<times> fstate" where
  "rename_step lib cfg pi st =
     (case st of (old_inode_names, new_inode_names, fs) \<Rightarrow>
        (case map_of new_inode_names pi of
           None \<Rightarrow> Inr st
         | Some new_names \<Rightarrow>
             if length new_names \<noteq> 1 then Inr st
             else
               (case map_of old_inode_names pi of
                  None \<Rightarrow> Inr st
                | Some old_names \<Rightarrow>
                    if length old_names \<noteq> 1 then Inr st
                    else
                      (case map_of (old_fis fs) (fst pi, snd pi, hd old_names) of
                         None \<Rightarrow> Inl KeyError
                       | Some old_fobj \<Rightarrow>
                           (case map_of (new_fis fs) (fst pi, snd pi, hd new_names) of
                              None \<Rightarrow> Inl KeyError
                            | Some new_obj \<Rightarrow>
                                if rename_requires_hash cfg \<and> sha1 old_fobj \<noteq> sha1 new_obj
                                then Inr st
                                else
                                  Inr (AList.update pi [] old_inode_names,
                                       AList.update pi [] new_inode_names,
                                       fs\<lparr>old_fis :=
                                            AList.delete (fst pi, snd pi, hd old_names) (old_fis fs),
                                          new_fis :=
                                            AList.delete (fst pi, snd pi, hd new_names) (new_fis fs),
                                          fileobjects_renamed :=
                                            fileobjects_renamed fs @
                                            [\<lparr>fobj = new_obj, original_fileobject = Some old_fobj,
                                              diffs = compare_file lib new_obj old_fobj
                                                        (diff_file_ignores cfg)\<rparr>]\<rparr>))))))"

definition detect_renames :: "externals \<Rightarrow> config \<Rightarrow> fstate \<Rightarrow> error + fstate" where
  "detect_renames lib cfg fs =
     (let fs0 = fs\<lparr>fileobjects_renamed := []\<rparr>;
          old_inode_names = make_name_map (old_fis fs0);
          new_inode_names = make_name_map (new_fis fs0)
      in case fold_err (rename_step lib cfg) (map fst new_inode_names)
                (old_inode_names, new_inode_names, fs0) of
           Inl e \<Rightarrow> Inl e
         | Inr (_, _, fs') \<Rightarrow> Inr fs')"

text \<open>\<^verbatim>\<open>_make_inode_map\<close>: (partition, file name) to the inode, the last one seen.\<close>

type_synonym inode_map = "((nat option \<times> string option) \<times> int option) list"

definition make_inode_map :: "(fkey \<times> FileObject) list \<Rightarrow> inode_map" where
  "make_inode_map d =
     foldl (\<lambda>retdict (p, i, fn). AList.update (p, fn) i retdict) [] (map fst d)"

definition inode_step ::
  "externals \<Rightarrow> config \<Rightarrow> inode_map \<Rightarrow> inode_map \<Rightarrow> nat option \<times> string option \<Rightarrow> fstate
     \<Rightarrow> error + fstate" where
  "inode_step lib cfg old_name_inodes new_name_inodes pn fs =
     (case map_of old_name_inodes pn of
        None \<Rightarrow> Inr fs
      | Some old_inode \<Rightarrow>
          (case map_of (old_fis fs) (fst pn, old_inode, snd pn) of
             None \<Rightarrow> Inl KeyError
           | Some old_fobj \<Rightarrow>
               (case map_of new_name_inodes pn of
                  None \<Rightarrow> Inl KeyError
                | Some new_inode \<Rightarrow>
                    (case map_of (new_fis fs) (fst pn, new_inode, snd pn) of
                       None \<Rightarrow> Inl KeyError
                     | Some new_obj \<Rightarrow>
                         Inr (fs\<lparr>old_fis := AList.delete (fst pn, old_inode, snd pn) (old_fis fs),
                                 new_fis := AList.delete (fst pn, new_inode, snd pn) (new_fis fs),
                                 fileobjects_changed :=
                                   fileobjects_changed fs @
                                   [\<lparr>fobj = new_obj, original_fileobject = Some old_fobj,
                                     diffs = compare_file lib new_obj old_fobj
                                               (diff_file_ignores cfg)\<rparr>]\<rparr>)))))"

definition detect_inode_changes :: "externals \<Rightarrow> config \<Rightarrow> fstate \<Rightarrow> error + fstate" where
  "detect_inode_changes lib cfg fs =
     (let old_name_inodes = make_inode_map (old_fis fs);
          new_name_inodes = make_inode_map (new_fis fs)
      in fold_err (inode_step lib cfg old_name_inodes new_name_inodes)
           (map fst new_name_inodes) fs)"

text \<open>
  One turn of the loop over the keys of \<^verbatim>\<open>new_fis_unalloc\<close>. The
  \<^verbatim>\<open>pop()\<close> of a list takes its last element.
\<close>

definition unalloc_step :: "externals \<Rightarrow> config \<Rightarrow> fkey \<Rightarrow> fstate \<Rightarrow> fstate" where
  "unalloc_step lib cfg key fs =
     (case map_of (new_fis_unalloc fs) key of
        None \<Rightarrow> fs
      | Some news \<Rightarrow>
          if length news \<noteq> 1 then fs
          else
            (case map_of (old_fis_unalloc fs) key of
               Some olds \<Rightarrow>
                 if length olds = 1
                 then
                   let old_fobj = last olds;
                       new_obj = last news;
                       raw = compare_file lib new_obj old_fobj (diff_file_ignores cfg);
                       entry = \<lparr>fobj = new_obj, original_fileobject = Some old_fobj, diffs = raw\<rparr>;
                       fs1 = fs\<lparr>old_fis_unalloc := AList.update key (butlast olds) (old_fis_unalloc fs),
                                new_fis_unalloc := AList.update key (butlast news) (new_fis_unalloc fs)\<rparr>;
                       d1 = raw - diff_mask_set cfg;
                       d2 = (if diff_mask_set cfg \<noteq> {} then d1 \<inter> diff_mask_set cfg else d1)
                   in if d2 \<noteq> {}
                      then fs1\<lparr>fileobjects_changed := fileobjects_changed fs1 @ [entry]\<rparr>
                      else if retain_unchanged cfg
                      then fs1\<lparr>fileobjects_unchanged := fileobjects_unchanged fs1 @ [entry]\<rparr>
                      else fs1
                 else fs
             | None \<Rightarrow>
                 (case map_of (old_fis fs) key of
                    Some old_fobj \<Rightarrow>
                      let new_obj = last news
                      in fs\<lparr>old_fis := AList.delete key (old_fis fs),
                            new_fis_unalloc := AList.update key (butlast news) (new_fis_unalloc fs),
                            fileobjects_deleted :=
                              fileobjects_deleted fs @
                              [\<lparr>fobj = new_obj, original_fileobject = Some old_fobj,
                                diffs = compare_file lib new_obj old_fobj (diff_file_ignores cfg)\<rparr>]\<rparr>
                  | None \<Rightarrow> fs)))"

definition detect_unalloc :: "externals \<Rightarrow> config \<Rightarrow> fstate \<Rightarrow> fstate" where
  "detect_unalloc lib cfg fs =
     (let fs0 = fs\<lparr>fileobjects_deleted := []\<rparr>
      in fold (unalloc_step lib cfg) (map fst (new_fis_unalloc fs0)) fs0)"

subsection \<open>The output\<close>

text \<open>
  The returned document: the volumes appended to it, each with the ordinal under which
  \<^verbatim>\<open>appenders\<close> holds it, and the file objects in the order of their
  \<^verbatim>\<open>append\<close>, each with the key of the appender that took it (\<open>None\<close> is the
  document itself).
\<close>

record document =
  doc_volumes :: "(nat \<times> VolumeEntry) list"
  doc_files :: "(nat option \<times> FileEntry) list"

definition empty_document :: document where
  "empty_document = \<lparr>doc_volumes = [], doc_files = []\<rparr>"

definition add_vanno :: "string \<Rightarrow> VolumeEntry \<Rightarrow> VolumeEntry" where
  "add_vanno a v = v\<lparr>vannos := insert a (vannos v)\<rparr>"

definition annotate_volumes :: "vstate \<Rightarrow> vstate" where
  "annotate_volumes vs =
     vs\<lparr>new_volumes := map (\<lambda>(k, v). (k, add_vanno ''new'' v)) (new_volumes vs),
        old_volumes := map (\<lambda>(k, v). (k, add_vanno ''deleted'' v)) (old_volumes vs),
        matched_volumes :=
          map (\<lambda>(k, v). (k, if vdiffs v \<noteq> {} then add_vanno ''modified'' v else v))
            (matched_volumes vs)\<rparr>"

text \<open>
  One turn of the loop that fills \<^verbatim>\<open>appenders\<close>: the ordinal of the volume key
  is looked up, and an ordinal that is already a key of \<^verbatim>\<open>appenders\<close> raises
  \<^verbatim>\<open>ValueError\<close>.
\<close>

definition appender_step ::
  "(vkey \<times> nat) list \<Rightarrow> vkey \<times> VolumeEntry \<Rightarrow> (nat \<times> VolumeEntry) list
     \<Rightarrow> error + (nat \<times> VolumeEntry) list" where
  "appender_step order kv appenders =
     (case map_of order (fst kv) of
        None \<Rightarrow> Inl KeyError
      | Some veo \<Rightarrow>
          if veo \<in> fst ` set appenders then Inl ValueError
          else Inr (appenders @ [(veo, snd kv)]))"

definition build_appenders :: "vstate \<Rightarrow> error + (nat \<times> VolumeEntry) list" where
  "build_appenders vs =
     fold_err (appender_step (volumes_encounter_order vs))
       (new_volumes vs @ matched_volumes vs @ old_volumes vs) []"

definition content_diffs :: "string set" where
  "content_diffs = {''md5'', ''sha1'', ''sha256''}"

definition add_anno :: "string \<Rightarrow> FileEntry \<Rightarrow> FileEntry" where
  "add_anno a fi = fi\<lparr>fobj := (fobj fi)\<lparr>annos := insert a (annos (fobj fi))\<rparr>\<rparr>"

definition maybe_match_attr :: "config \<Rightarrow> FileEntry \<Rightarrow> FileEntry" where
  "maybe_match_attr cfg obj = (if annotate_matches cfg then add_anno ''matched'' obj else obj)"

text \<open>\<^verbatim>\<open>Objects.FileObject()\<close>: every property unset.\<close>

definition empty_FileObject :: FileObject where
  "empty_FileObject =
     \<lparr>filename = None, inode = None, partition = None, alloc = None, sha1 = None,
      byte_runs = None, volume_object = None, annos = {}, props = []\<rparr>"

text \<open>A file object that no comparison has touched: no original, no diffs.\<close>

definition plain_entry :: "FileObject \<Rightarrow> FileEntry" where
  "plain_entry fi = \<lparr>fobj = fi, original_fileobject = None, diffs = {}\<rparr>"

definition out_new :: "FileObject \<Rightarrow> nat option \<times> FileEntry" where
  "out_new fi = (partition fi, add_anno ''new'' (plain_entry fi))"

definition out_deleted :: "config \<Rightarrow> FileEntry \<Rightarrow> nat option \<times> FileEntry" where
  "out_deleted cfg fi =
     (partition (fobj fi),
      maybe_match_attr cfg
        (add_anno ''deleted''
          ((if ''filename'' \<in> diffs fi then add_anno ''renamed'' else id)
            ((if content_diffs \<inter> diffs fi \<noteq> {} then add_anno ''modified'' else id)
              ((if diffs fi - content_diffs \<noteq> {} then add_anno ''changed'' else id) fi)))))"

definition out_placeholder :: "FileObject \<Rightarrow> nat option \<times> FileEntry" where
  "out_placeholder ofi =
     (partition ofi,
      add_anno ''deleted''
        \<lparr>fobj = empty_FileObject, original_fileobject = Some ofi, diffs = {}\<rparr>)"

definition out_renamed :: "config \<Rightarrow> FileEntry \<Rightarrow> nat option \<times> FileEntry" where
  "out_renamed cfg fi =
     (partition (fobj fi),
      maybe_match_attr cfg
        (add_anno ''renamed''
          ((if diffs fi - content_diffs \<noteq> {} then add_anno ''changed'' else id)
            ((if content_diffs \<inter> diffs fi \<noteq> {} then add_anno ''modified'' else id) fi))))"

definition out_changed :: "config \<Rightarrow> FileEntry \<Rightarrow> nat option \<times> FileEntry" where
  "out_changed cfg fi =
     (partition (fobj fi),
      maybe_match_attr cfg
        ((if diffs fi - content_diffs \<noteq> {} then add_anno ''changed'' else id)
          ((if content_diffs \<inter> diffs fi \<noteq> {} then add_anno ''modified'' else id) fi)))"

definition out_unchanged :: "config \<Rightarrow> FileEntry \<Rightarrow> nat option \<times> FileEntry" where
  "out_unchanged cfg fi = (partition (fobj fi), maybe_match_attr cfg fi)"

text \<open>The file objects in the order in which the eight loops append them.\<close>

definition output_files :: "config \<Rightarrow> fstate \<Rightarrow> (nat option \<times> FileEntry) list" where
  "output_files cfg fs =
     map (\<lambda>(key, fi). out_new fi) (new_fis fs)
     @ concat (map (\<lambda>(key, fis). map out_new fis) (new_fis_unalloc fs))
     @ map (out_deleted cfg) (fileobjects_deleted fs)
     @ map (\<lambda>(key, ofi). out_placeholder ofi) (old_fis fs)
     @ concat (map (\<lambda>(key, ofis). map out_placeholder ofis) (old_fis_unalloc fs))
     @ map (out_renamed cfg) (fileobjects_renamed fs)
     @ map (out_changed cfg) (fileobjects_changed fs)
     @ map (out_unchanged cfg) (fileobjects_unchanged fs)"

text \<open>
  \<^verbatim>\<open>appenders[fi.partition].append(fi)\<close>: a partition that is no key of
  \<^verbatim>\<open>appenders\<close> raises.
\<close>

definition append_file ::
  "nat list \<Rightarrow> nat option \<times> FileEntry \<Rightarrow> (nat option \<times> FileEntry) list
     \<Rightarrow> error + (nat option \<times> FileEntry) list" where
  "append_file ordinals x files =
     (case fst x of
        None \<Rightarrow> Inr (files @ [x])
      | Some n \<Rightarrow> if n \<in> set ordinals then Inr (files @ [x]) else Inl KeyError)"

definition assemble :: "config \<Rightarrow> vstate \<Rightarrow> fstate \<Rightarrow> document \<Rightarrow> error + document" where
  "assemble cfg vs fs d =
     (case build_appenders (annotate_volumes vs) of
        Inl e \<Rightarrow> Inl e
      | Inr appenders \<Rightarrow>
          (case fold_err (append_file (map fst appenders)) (output_files cfg fs) (doc_files d) of
             Inl e \<Rightarrow> Inl e
           | Inr files \<Rightarrow>
               Inr \<lparr>doc_volumes = doc_volumes d @ appenders, doc_files = files\<rparr>))"

subsection \<open>The function\<close>

definition detect :: "externals \<Rightarrow> config \<Rightarrow> fstate \<Rightarrow> error + fstate" where
  "detect lib cfg fs =
     (case detect_renames lib cfg fs of
        Inl e \<Rightarrow> Inl e
      | Inr fs1 \<Rightarrow>
          (case detect_inode_changes lib cfg fs1 of
             Inl e \<Rightarrow> Inl e
           | Inr fs2 \<Rightarrow> Inr (detect_unalloc lib cfg fs2)))"

text \<open>
  One round of \<^verbatim>\<open>for infile in [pre, post]\<close>: the manifest is read, and
  unless \<^verbatim>\<open>infile == pre\<close> (a comparison of the two paths) the passes run and
  the output is assembled.
\<close>

definition read_manifest ::
  "externals \<Rightarrow> config \<Rightarrow> string \<Rightarrow> string \<Rightarrow> vstate \<times> fstate \<Rightarrow> error + vstate \<times> fstate" where
  "read_manifest lib cfg pre infile st =
     fold_err (process_obj lib cfg (infile = pre)) (iterparse lib infile)
       (rotate_volumes (fst st), rotate_files (snd st))"

definition round_body ::
  "externals \<Rightarrow> config \<Rightarrow> string \<Rightarrow> string \<Rightarrow> vstate \<times> fstate \<times> document
     \<Rightarrow> error + vstate \<times> fstate \<times> document" where
  "round_body lib cfg pre infile st =
     (case st of (vs, fs, d) \<Rightarrow>
        (case read_manifest lib cfg pre infile (vs, fs) of
           Inl e \<Rightarrow> Inl e
         | Inr (vs', fs') \<Rightarrow>
             if infile = pre then Inr (vs', fs', d)
             else
               (case detect lib cfg fs' of
                  Inl e \<Rightarrow> Inl e
                | Inr fs'' \<Rightarrow>
                    (case assemble cfg vs' fs'' d of
                       Inl e \<Rightarrow> Inl e
                     | Inr d' \<Rightarrow> Inr (vs', fs'', d')))))"

text \<open>
  The function with its local variables at the return, and the function itself, which
  returns the document only.
\<close>

definition differential ::
  "externals \<Rightarrow> config \<Rightarrow> string \<Rightarrow> string \<Rightarrow> error + vstate \<times> fstate \<times> document" where
  "differential lib cfg pre post =
     (if diff_mode cfg \<notin> {''all'', ''idifference''} then Inl ValueError
      else fold_err (round_body lib cfg pre) [pre, post]
             (init_vstate, init_fstate, empty_document))"

definition make_differential_dfxml ::
  "externals \<Rightarrow> config \<Rightarrow> string \<Rightarrow> string \<Rightarrow> error + document" where
  "make_differential_dfxml lib cfg pre post =
     (case differential lib cfg pre post of
        Inl e \<Rightarrow> Inl e
      | Inr (vs, fs, d) \<Rightarrow> Inr d)"

subsection \<open>The specification's effective diff, and inputs for the examples\<close>

text \<open>
  The effective diff in the words of the specification: the ignore set is subtracted
  from the raw set of changed attributes and, when a mask set is configured, the result
  is intersected with it.
\<close>

definition spec_effective_diff :: "string set \<Rightarrow> string set \<Rightarrow> string set \<Rightarrow> string set" where
  "spec_effective_diff ignore_set mask_set raw =
     (if mask_set = {} then raw - ignore_set else (raw - ignore_set) \<inter> mask_set)"

text \<open>The default values of the keyword arguments of the function.\<close>

definition default_config :: config where
  "default_config =
     \<lparr>annotate_matches = False, diff_mode = ''all'', glom_byte_runs = False,
      ignore_filename_function = ignorable_name, rename_requires_hash = False,
      retain_unchanged = False, ignore_properties = {}\<rparr>"

text \<open>
  The object library of the examples. Its \<^verbatim>\<open>str.lower\<close> is the one of strings of
  ASCII characters: the letters A to Z become a to z, every other character is kept.
\<close>

definition lower_char :: "char \<Rightarrow> char" where
  "lower_char c =
     (let n = (of_char c :: nat) in if 65 \<le> n \<and> n \<le> 90 then char_of (n + 32) else c)"

definition ascii_lower :: "string \<Rightarrow> string" where
  "ascii_lower s = map lower_char s"

text \<open>
  A comparison for the examples: the file name, the inode, the SHA-1 and every property
  of the new object whose value the original does not have, without the ignored names.
\<close>

definition example_compare :: "FileObject \<Rightarrow> FileObject \<Rightarrow> string set \<Rightarrow> string set" where
  "example_compare n orig ign =
     set (filter (\<lambda>a. a \<notin> ign)
           ((if filename n \<noteq> filename orig then [''filename''] else [])
            @ (if inode n \<noteq> inode orig then [''inode''] else [])
            @ (if sha1 n \<noteq> sha1 orig then [''sha1''] else [])
            @ map fst (filter (\<lambda>(k, v). map_of (props orig) k \<noteq> Some v) (props n))))"

definition example_lib :: "(event \<times> parsed) list \<Rightarrow> (event \<times> parsed) list \<Rightarrow> externals" where
  "example_lib A B =
     \<lparr>iterparse = (\<lambda>p. if p = ''pre'' then A else B), compare_file = example_compare,
      compare_volume = (\<lambda>n orig. {}), glom = (\<lambda>rs r. rs @ [r]), str_lower = ascii_lower\<rparr>"

definition example_file ::
  "string option \<Rightarrow> int option \<Rightarrow> bool \<Rightarrow> string option \<Rightarrow> (string \<times> string) list \<Rightarrow> FileObject" where
  "example_file fn i a h ps =
     \<lparr>filename = fn, inode = i, partition = None, alloc = Some a, sha1 = h,
      byte_runs = None, volume_object = None, annos = {}, props = ps\<rparr>"

definition example_volume :: "int \<Rightarrow> string \<Rightarrow> VolumeObject" where
  "example_volume off ft = \<lparr>partition_offset = Some off, ftype_str = Some ft, vprops = []\<rparr>"

text \<open>
  Two manifests with one unallocated file each, under the same identity key, that differ
  in the modification time.
\<close>

definition unalloc_pre :: "(event \<times> parsed) list" where
  "unalloc_pre = [(End, File_parsed (example_file (Some ''f'') (Some 5) False None [(''mtime'', ''1'')]))]"

definition unalloc_post :: "(event \<times> parsed) list" where
  "unalloc_post = [(End, File_parsed (example_file (Some ''f'') (Some 5) False None [(''mtime'', ''2'')]))]"

definition idifference_config :: config where
  "idifference_config = default_config\<lparr>diff_mode := ''idifference'', retain_unchanged := True\<rparr>"

text \<open>
  A first manifest with an allocated file and two unallocated ones under one identity
  key, and a second manifest with a single unallocated file under that key.
\<close>

definition remnant_pre :: "(event \<times> parsed) list" where
  "remnant_pre =
     [(End, File_parsed (example_file (Some ''f'') (Some 5) True None [])),
      (End, File_parsed (example_file (Some ''f'') (Some 5) False None [(''mtime'', ''1'')])),
      (End, File_parsed (example_file (Some ''f'') (Some 5) False None [(''mtime'', ''2'')]))]"

definition remnant_post :: "(event \<times> parsed) list" where
  "remnant_post = [(End, File_parsed (example_file (Some ''f'') (Some 5) False None []))]"

text \<open>A volume that the second manifest lists twice.\<close>

definition twice_pre :: "(event \<times> parsed) list" where
  "twice_pre =
     [(Start, Volume_parsed (example_volume 0 ''ntfs'')),
      (End, Volume_parsed (example_volume 0 ''ntfs''))]"

definition twice_post :: "(event \<times> parsed) list" where
  "twice_post =
     [(Start, Volume_parsed (example_volume 0 ''ntfs'')),
      (End, Volume_parsed (example_volume 0 ''ntfs'')),
      (Start, Volume_parsed (example_volume 0 ''ntfs'')),
      (End, Volume_parsed (example_volume 0 ''ntfs''))]"

text \<open>
  An allocated file whose modification time and SHA-256 change; the SHA-256 is not in
  the mask of \<^verbatim>\<open>idifference\<close>.
\<close>

definition sha256_pre :: "(event \<times> parsed) list" where
  "sha256_pre =
     [(End, File_parsed (example_file (Some ''f'') (Some 5) True None
              [(''mtime'', ''1''), (''sha256'', ''aa'')]))]"

definition sha256_post :: "(event \<times> parsed) list" where
  "sha256_post =
     [(End, File_parsed (example_file (Some ''f'') (Some 5) True None
              [(''mtime'', ''2''), (''sha256'', ''bb'')]))]"

text \<open>
  What the pass over the unallocated file objects leaves when it has paired the only
  unallocated file object under a key with the allocated one of the first manifest.
\<close>

definition remnant_paired :: "fkey \<Rightarrow> FileEntry \<Rightarrow> fstate \<Rightarrow> bool" where
  "remnant_paired key entry fs \<longleftrightarrow>
     entry \<in> set (fileobjects_deleted fs)
     \<and> map_of (old_fis fs) key = None
     \<and> map_of (new_fis_unalloc fs) key = Some []"

text \<open>A compared pair whose raw diffs are the modification time and the SHA-256.\<close>

definition sha256_entry :: FileEntry where
  "sha256_entry =
     \<lparr>fobj = example_file (Some ''f'') (Some 5) True None [(''mtime'', ''2''), (''sha256'', ''bb'')],
      original_fileobject =
        Some (example_file (Some ''f'') (Some 5) True None [(''mtime'', ''1''), (''sha256'', ''aa'')]),
      diffs = {''mtime'', ''sha256''}\<rparr>"

text \<open>
  What the output makes of a compared pair \<open>fi\<close>: the record \<open>out\<close> goes to the
  appender of the partition of \<open>fi\<close>, it keeps the original and the diffs of \<open>fi\<close>,
  and its file object is that of \<open>fi\<close> but for the annotations; among these,
  \<^verbatim>\<open>modified\<close> is there exactly when \<open>fi\<close> had it already or \<open>m\<close> holds, and
  \<^verbatim>\<open>changed\<close> exactly when \<open>fi\<close> had it already or \<open>c\<close> holds.
\<close>

definition output_of :: "FileEntry \<Rightarrow> nat option \<times> FileEntry \<Rightarrow> bool \<Rightarrow> bool \<Rightarrow> bool" where
  "output_of fi out m c \<longleftrightarrow>
     fst out = partition (fobj fi)
     \<and> original_fileobject (snd out) = original_fileobject fi
     \<and> diffs (snd out) = diffs fi
     \<and> fobj (snd out) = (fobj fi)\<lparr>annos := annos (fobj (snd out))\<rparr>
     \<and> (''modified'' \<in> annos (fobj (snd out)) \<longleftrightarrow> ''modified'' \<in> annos (fobj fi) \<or> m)
     \<and> (''changed'' \<in> annos (fobj (snd out)) \<longleftrightarrow> ''changed'' \<in> annos (fobj fi) \<or> c)"

text \<open>
  A state at the end of the passes with one compared pair in each list: a deleted one
  whose raw diffs are the SHA-1, a renamed one whose raw diffs are the file name, the
  changed one above, and an unchanged one whose raw diffs are the owner.
\<close>

definition annotated_fs :: fstate where
  "annotated_fs =
     init_fstate
       \<lparr>fileobjects_deleted :=
          [\<lparr>fobj = example_file (Some ''g'') (Some 6) False (Some ''H2'') [],
            original_fileobject = Some (example_file (Some ''g'') (Some 6) True (Some ''H1'') []),
            diffs = {''sha1''}\<rparr>],
        fileobjects_renamed :=
          [\<lparr>fobj = example_file (Some ''b.txt'') (Some 7) True None [],
            original_fileobject = Some (example_file (Some ''a.txt'') (Some 7) True None []),
            diffs = {''filename''}\<rparr>],
        fileobjects_changed := [sha256_entry],
        fileobjects_unchanged :=
          [\<lparr>fobj = example_file (Some ''u'') (Some 8) True None [(''uid'', ''2'')],
            original_fileobject = Some (example_file (Some ''u'') (Some 8) True None [(''uid'', ''1'')]),
            diffs = {''uid''}\<rparr>]\<rparr>"

text \<open>
  The rename candidates in the words of the specification: at a (partition, inode) both
  dictionaries hold exactly one file name each, and the SHA-1 of the two file objects
  agree when the confirmation by hash is required. \<open>names_at d pi\<close> is the set of
  file names under which \<open>d\<close> has a key at \<open>pi\<close>.
\<close>

definition names_at :: "(fkey \<times> FileObject) list \<Rightarrow> nat option \<times> int option \<Rightarrow> string option set" where
  "names_at d pi = {fn. map_of d (fst pi, snd pi, fn) \<noteq> None}"

definition rename_candidate ::
  "externals \<Rightarrow> config \<Rightarrow> fstate \<Rightarrow> nat option \<times> int option \<Rightarrow> FileEntry \<Rightarrow> bool" where
  "rename_candidate lib cfg fs pi e \<longleftrightarrow>
     (\<exists>old_name new_name old_fobj new_obj.
        names_at (old_fis fs) pi = {old_name}
        \<and> names_at (new_fis fs) pi = {new_name}
        \<and> map_of (old_fis fs) (fst pi, snd pi, old_name) = Some old_fobj
        \<and> map_of (new_fis fs) (fst pi, snd pi, new_name) = Some new_obj
        \<and> (rename_requires_hash cfg \<longrightarrow> sha1 old_fobj = sha1 new_obj)
        \<and> e = \<lparr>fobj = new_obj, original_fileobject = Some old_fobj,
                diffs = compare_file lib new_obj old_fobj (diff_file_ignores cfg)\<rparr>)"

text \<open>A name map that agrees with a dictionary at a (partition, inode).\<close>

definition names_ok :: "name_map \<Rightarrow> (fkey \<times> FileObject) list \<Rightarrow> nat option \<times> int option \<Rightarrow> bool" where
  "names_ok m d pi \<longleftrightarrow>
     (case map_of m pi of
        None \<Rightarrow> names_at d pi = {}
      | Some l \<Rightarrow> distinct l \<and> set l = names_at d pi)"









text \<open>
  The volume keys of a manifest, in the order of the start events of its volumes, and the
  consistency of the ordinals with the three dictionaries of volumes: no key is in two
  dictionaries, the ordinals are those of the keys of the dictionaries, no ordinal is
  given twice, and none exceeds the number of volumes.
\<close>

fun volume_keys :: "externals \<Rightarrow> (event \<times> parsed) list \<Rightarrow> vkey list" where
  "volume_keys lib [] = []"
| "volume_keys lib (x # xs) =
     (case snd x of
        Volume_parsed v \<Rightarrow>
          (if fst x = End then []
           else (case partition_offset v of
                   None \<Rightarrow> []
                 | Some offset \<Rightarrow> [(offset, lower_ftype_str lib v)]))
      | _ \<Rightarrow> [])
     @ volume_keys lib xs"

definition ordinals_ok :: "vstate \<Rightarrow> bool" where
  "ordinals_ok vs \<longleftrightarrow>
     distinct (map fst (new_volumes vs @ matched_volumes vs @ old_volumes vs))
     \<and> set (map fst (volumes_encounter_order vs))
         = set (map fst (new_volumes vs @ matched_volumes vs @ old_volumes vs))
     \<and> distinct (map fst (volumes_encounter_order vs))
     \<and> distinct (map snd (volumes_encounter_order vs))
     \<and> list_all (\<lambda>kn. snd kn
                     \<le> length (new_volumes vs) + length (old_volumes vs)
                        + length (matched_volumes vs))
          (volumes_encounter_order vs)"

text \<open>
  The ordinals that the loop over the three dictionaries of volumes looks up, in its
  order: new, matched, old.
\<close>

definition walked_ordinals :: "vstate \<Rightarrow> nat list" where
  "walked_ordinals vs =
     List.map_filter (\<lambda>kv. map_of (volumes_encounter_order vs) (fst kv))
       (new_volumes vs @ matched_volumes vs @ old_volumes vs)"

text \<open>A first manifest with one volume and a second one with that volume and another.\<close>

definition volumes_pre :: "(event \<times> parsed) list" where
  "volumes_pre =
     [(Start, Volume_parsed (example_volume 0 ''ntfs'')),
      (End, Volume_parsed (example_volume 0 ''ntfs''))]"

definition volumes_post :: "(event \<times> parsed) list" where
  "volumes_post =
     [(Start, Volume_parsed (example_volume 1024 ''fat16'')),
      (End, Volume_parsed (example_volume 1024 ''fat16'')),
      (Start, Volume_parsed (example_volume 0 ''NTFS'')),
      (End, Volume_parsed (example_volume 0 ''NTFS''))]"

text \<open>
  The volumes after the manifests \<open>twice_pre\<close> and \<open>twice_post\<close>: the volume is
  matched, then new, and its ordinal has become 2.
\<close>

definition twice_vstate :: vstate where
  "twice_vstate =
     \<lparr>old_volumes = [],
      new_volumes = [((0, Some ''ntfs''),
                      \<lparr>vobj = example_volume 0 ''ntfs'', original_volume = None,
                       vdiffs = {}, vannos = {}\<rparr>)],
      matched_volumes = [((0, Some ''ntfs''),
                      \<lparr>vobj = example_volume 0 ''ntfs'',
                       original_volume = Some (example_volume 0 ''ntfs''),
                       vdiffs = {}, vannos = {}\<rparr>)],
      volumes_encounter_order = [((0, Some ''ntfs''), 2)]\<rparr>"

text \<open>
  Two strings that \<^verbatim>\<open>str.lower\<close> maps to one string; two manifests of which the
  second is the first with the file system type of volumes (in the volume records and in
  the volumes that the file objects carry) replaced by such a string; and two results of
  the volume matching that agree: the same keys in the same order in the three
  dictionaries of volumes, and the same ordinals.
\<close>

definition same_lower :: "externals \<Rightarrow> string \<Rightarrow> string \<Rightarrow> bool" where
  "same_lower lib s t \<longleftrightarrow> str_lower lib s = str_lower lib t"

definition volume_variant :: "externals \<Rightarrow> VolumeObject \<Rightarrow> VolumeObject \<Rightarrow> bool" where
  "volume_variant lib v w \<longleftrightarrow>
     (\<exists>ft. w = v\<lparr>ftype_str := ft\<rparr> \<and> rel_option (same_lower lib) (ftype_str v) ft)"

definition file_variant :: "externals \<Rightarrow> FileObject \<Rightarrow> FileObject \<Rightarrow> bool" where
  "file_variant lib f g \<longleftrightarrow>
     (\<exists>vo. g = f\<lparr>volume_object := vo\<rparr> \<and> rel_option (volume_variant lib) (volume_object f) vo)"

definition parsed_variant :: "externals \<Rightarrow> event \<times> parsed \<Rightarrow> event \<times> parsed \<Rightarrow> bool" where
  "parsed_variant lib x y \<longleftrightarrow>
     fst x = fst y
     \<and> (case snd x of
          Volume_parsed v \<Rightarrow> (\<exists>w. snd y = Volume_parsed w \<and> volume_variant lib v w)
        | File_parsed f \<Rightarrow> (\<exists>g. snd y = File_parsed g \<and> file_variant lib f g)
        | _ \<Rightarrow> snd y = snd x)"

definition same_volume_match :: "vstate \<Rightarrow> vstate \<Rightarrow> bool" where
  "same_volume_match vs ws \<longleftrightarrow>
     map fst (new_volumes vs) = map fst (new_volumes ws)
     \<and> map fst (old_volumes vs) = map fst (old_volumes ws)
     \<and> map fst (matched_volumes vs) = map fst (matched_volumes ws)
     \<and> volumes_encounter_order vs = volumes_encounter_order ws"

text \<open>The manifests \<open>volumes_pre\<close> and \<open>volumes_post\<close> with other letter cases.\<close>

definition volumes_pre_variant :: "(event \<times> parsed) list" where
  "volumes_pre_variant =
     [(Start, Volume_parsed (example_volume 0 ''Ntfs'')),
      (End, Volume_parsed (example_volume 0 ''Ntfs''))]"

definition volumes_post_variant :: "(event \<times> parsed) list" where
  "volumes_post_variant =
     [(Start, Volume_parsed (example_volume 1024 ''FAT16'')),
      (End, Volume_parsed (example_volume 1024 ''FAT16'')),
      (Start, Volume_parsed (example_volume 0 ''ntfs'')),
      (End, Volume_parsed (example_volume 0 ''ntfs''))]"

text \<open>
  Letters outside ASCII. A Greek word of four letters (omicron, delta, omicron, sigma)
  in capital letters and in small letters, as UTF-8. In \<^verbatim>\<open>str.lower\<close> a capital
  sigma at the end of a word becomes the final small sigma (U+03C2), which the word in
  small letters does not have: the two strings differ only in the case of their letters,
  and \<^verbatim>\<open>lower()\<close> gives two strings. \<open>greek_lower\<close> is \<^verbatim>\<open>str.lower\<close> on
  these words and on the strings of ASCII characters.
\<close>

definition odos_capitals :: string where
  "odos_capitals =
     [CHR 0xCE, CHR 0x9F, CHR 0xCE, CHR 0x94, CHR 0xCE, CHR 0x9F, CHR 0xCE, CHR 0xA3]"

definition odos_small :: string where
  "odos_small =
     [CHR 0xCE, CHR 0xBF, CHR 0xCE, CHR 0xB4, CHR 0xCE, CHR 0xBF, CHR 0xCF, CHR 0x83]"

definition odos_final_sigma :: string where
  "odos_final_sigma =
     [CHR 0xCE, CHR 0xBF, CHR 0xCE, CHR 0xB4, CHR 0xCE, CHR 0xBF, CHR 0xCF, CHR 0x82]"

definition greek_lower :: "string \<Rightarrow> string" where
  "greek_lower s = (if s = odos_capitals then odos_final_sigma else ascii_lower s)"

definition greek_lib :: "(event \<times> parsed) list \<Rightarrow> (event \<times> parsed) list \<Rightarrow> externals" where
  "greek_lib A B = (example_lib A B)\<lparr>str_lower := greek_lower\<rparr>"

definition greek_capitals :: "(event \<times> parsed) list" where
  "greek_capitals =
     [(Start, Volume_parsed (example_volume 0 odos_capitals)),
      (End, Volume_parsed (example_volume 0 odos_capitals))]"

definition greek_small :: "(event \<times> parsed) list" where
  "greek_small =
     [(Start, Volume_parsed (example_volume 0 odos_small)),
      (End, Volume_parsed (example_volume 0 odos_small))]"












section \<open>Properties\<close>

subsection \<open>The default filter on file names\<close>

lemma ignore_filename_function_irrelevant:
  "diff_mask_set (cfg\<lparr>ignore_filename_function := g\<rparr>) = diff_mask_set cfg"
  "diff_file_ignores (cfg\<lparr>ignore_filename_function := g\<rparr>) = diff_file_ignores cfg"
  "identity_key (cfg\<lparr>ignore_filename_function := g\<rparr>) = identity_key cfg"
  by (simp_all add: diff_mask_set_def diff_file_ignores_def identity_key_def fun_eq_iff)

text \<open>
  C10. \<open>ignorable_name\<close> holds exactly of the paths whose base name is one of
  \<^verbatim>\<open>.\<close>, \<^verbatim>\<open>..\<close>, \<^verbatim>\<open>$FAT1\<close>, \<^verbatim>\<open>$FAT2\<close>, \<^verbatim>\<open>$OrphanFiles\<close>, and is
  false of \<open>None\<close>; so under the default filter a file object without a name is
  processed as if there were no filter at all.
\<close>

theorem ignorable_name_default:
  assumes "filename f = None" and "ignore_filename_function cfg = ignorable_name"
  shows "(ignorable_name fn \<longleftrightarrow>
            (\<exists>n. fn = Some n \<and> basename n \<in> {''.'', ''..'', ''$FAT1'', ''$FAT2'', ''$OrphanFiles''}))
         \<and> ignorable_name None = False
         \<and> process_file lib cfg is_pre order fs f
             = process_file lib (cfg\<lparr>ignore_filename_function := (\<lambda>fn. False)\<rparr>) is_pre order fs f"
proof -
  have 1: "ignorable_name fn \<longleftrightarrow>
            (\<exists>n. fn = Some n \<and> basename n \<in> {''.'', ''..'', ''$FAT1'', ''$FAT2'', ''$OrphanFiles''})"
    by (cases fn) (simp_all add: ignorable_name_def)
  have 2: "ignorable_name None = False"
    by (simp add: ignorable_name_def)
  have 3: "process_file lib cfg is_pre order fs f
             = process_file lib (cfg\<lparr>ignore_filename_function := (\<lambda>fn. False)\<rparr>) is_pre order fs f"
    using assms 2
    by (simp add: process_file_def ignore_filename_function_irrelevant
          split del: if_split cong: sum.case_cong option.case_cong if_cong)
  show ?thesis by (rule conjI [OF 1 conjI [OF 2 3]])
qed

theorem ignorable_name_default_witness:
  "filename (example_file None (Some 7) True None []) = None
   \<and> ignore_filename_function default_config = ignorable_name
   \<and> ignorable_name (Some ''dir/$FAT1'')
   \<and> \<not> ignorable_name (Some ''$FAT1/x'')
   \<and> process_file (example_lib [] []) default_config True [] init_fstate (example_file None (Some 7) True None [])
       = Inr (init_fstate\<lparr>new_fis := [((None, Some 7, None), example_file None (Some 7) True None [])]\<rparr>)"
proof -
  have a: "filename (example_file None (Some 7) True None []) = None"
    by (simp add: example_file_def)
  have b: "ignore_filename_function default_config = ignorable_name"
    by (simp add: default_config_def)
  have c: "process_file (example_lib [] []) (default_config\<lparr>ignore_filename_function := (\<lambda>fn. False)\<rparr>) True []
             init_fstate (example_file None (Some 7) True None [])
       = Inr (init_fstate\<lparr>new_fis := [((None, Some 7, None), example_file None (Some 7) True None [])]\<rparr>)"
    by (simp add: process_file_def default_config_def example_file_def normalize_partition_def
          identity_key_def init_fstate_def)
  have d: "basename ''dir/$FAT1'' = ''$FAT1''" "basename ''$FAT1/x'' = ''x''"
    by (simp_all add: basename_def)
  note t1 = ignorable_name_default [OF a b, of "Some ''dir/$FAT1''" "example_lib [] []" True "[]" init_fstate]
  note t2 = ignorable_name_default [OF a b, of "Some ''$FAT1/x''" "example_lib [] []" True "[]" init_fstate]
  have e: "ignorable_name (Some ''dir/$FAT1'')"
    using conjunct1 [OF t1] d by simp
  have f: "\<not> ignorable_name (Some ''$FAT1/x'')"
    using conjunct1 [OF t2] d by simp
  have g: "process_file (example_lib [] []) default_config True [] init_fstate (example_file None (Some 7) True None [])
       = Inr (init_fstate\<lparr>new_fis := [((None, Some 7, None), example_file None (Some 7) True None [])]\<rparr>)"
    using conjunct2 [OF conjunct2 [OF t1]] c by (rule trans)
  show ?thesis
    by (rule conjI [OF a conjI [OF b conjI [OF e conjI [OF f g]]]])
qed

subsection \<open>The direct lookup\<close>

lemma process_file_direct:
  assumes "\<not> ignore_filename_function cfg (filename f)"
    and "normalize_partition lib order (if glom_byte_runs cfg then glom_runs lib f else f) = Inr new_obj"
    and "alloc new_obj = Some True"
    and "map_of (old_fis fs) (identity_key cfg new_obj) = Some old_fobj"
  shows "process_file lib cfg False order fs f =
           Inr (if (if diff_mode cfg = ''idifference''
                    then (compare_file lib new_obj old_fobj (ignore_properties cfg)
                            - ignore_properties cfg)
                         \<inter> {''atime'', ''byte_runs'', ''crtime'', ''ctime'', ''filename'',
                             ''filesize'', ''md5'', ''mtime'', ''sha1''}
                    else compare_file lib new_obj old_fobj (ignore_properties cfg)
                           - ignore_properties cfg) \<noteq> {}
                then fs\<lparr>old_fis := AList.delete (identity_key cfg new_obj) (old_fis fs),
                        fileobjects_changed := fileobjects_changed fs @
                          [\<lparr>fobj = new_obj, original_fileobject = Some old_fobj,
                            diffs = compare_file lib new_obj old_fobj (ignore_properties cfg)\<rparr>]\<rparr>
                else if retain_unchanged cfg
                then fs\<lparr>old_fis := AList.delete (identity_key cfg new_obj) (old_fis fs),
                        fileobjects_unchanged := fileobjects_unchanged fs @
                          [\<lparr>fobj = new_obj, original_fileobject = Some old_fobj,
                            diffs = compare_file lib new_obj old_fobj (ignore_properties cfg)\<rparr>]\<rparr>
                else fs\<lparr>old_fis := AList.delete (identity_key cfg new_obj) (old_fis fs)\<rparr>)"
  using assms
  by (simp add: process_file_def Let_def diff_file_ignores_def diff_mask_set_def)

text \<open>
  C4. In the second manifest, an allocated file object whose identity key is in the
  dictionary of the first manifest is taken out of it and compared. The filtered diff
  is the raw diffs without the ignore set, and with \<^verbatim>\<open>diff_mode = idifference\<close>
  (in no other mode) what of them lies in the mask of nine attribute names. The file
  object is appended to the changed list when the filtered diff is not empty, and
  otherwise to the unchanged list if \<^verbatim>\<open>retain_unchanged\<close> is set, and dropped if
  not. With \<^verbatim>\<open>idifference\<close>, raw diffs that lie outside the mask give the second
  case.
\<close>

theorem direct_lookup_classification:
  assumes "\<not> ignore_filename_function cfg (filename f)"
    and "normalize_partition lib order (if glom_byte_runs cfg then glom_runs lib f else f) = Inr new_obj"
    and "alloc new_obj = Some True"
    and "map_of (old_fis fs) (identity_key cfg new_obj) = Some old_fobj"
    and "raw = compare_file lib new_obj old_fobj (ignore_properties cfg)"
    and "filtered = (if diff_mode cfg = ''idifference''
                     then (raw - ignore_properties cfg)
                          \<inter> {''atime'', ''byte_runs'', ''crtime'', ''ctime'', ''filename'',
                              ''filesize'', ''md5'', ''mtime'', ''sha1''}
                     else raw - ignore_properties cfg)"
    and "entry = \<lparr>fobj = new_obj, original_fileobject = Some old_fobj, diffs = raw\<rparr>"
    and "popped = AList.delete (identity_key cfg new_obj) (old_fis fs)"
  shows "process_file lib cfg False order fs f =
           Inr (if filtered \<noteq> {}
                then fs\<lparr>old_fis := popped, fileobjects_changed := fileobjects_changed fs @ [entry]\<rparr>
                else if retain_unchanged cfg
                then fs\<lparr>old_fis := popped, fileobjects_unchanged := fileobjects_unchanged fs @ [entry]\<rparr>
                else fs\<lparr>old_fis := popped\<rparr>)
         \<and> (diff_mode cfg = ''idifference''
              \<and> raw \<inter> {''atime'', ''byte_runs'', ''crtime'', ''ctime'', ''filename'', ''filesize'',
                        ''md5'', ''mtime'', ''sha1''} = {}
            \<longrightarrow> process_file lib cfg False order fs f =
                  Inr (if retain_unchanged cfg
                       then fs\<lparr>old_fis := popped,
                               fileobjects_unchanged := fileobjects_unchanged fs @ [entry]\<rparr>
                       else fs\<lparr>old_fis := popped\<rparr>))"
proof -
  note step = process_file_direct [OF assms(1-4), folded assms(5), folded assms(6),
      folded assms(7,8)]
  have "filtered = {}"
    if "diff_mode cfg = ''idifference''"
      and "raw \<inter> {''atime'', ''byte_runs'', ''crtime'', ''ctime'', ''filename'', ''filesize'',
                   ''md5'', ''mtime'', ''sha1''} = {}"
    using that unfolding assms(6) by auto
  with step show ?thesis by simp
qed

theorem direct_lookup_classification_witness:
  "process_file (example_lib [] []) idifference_config False []
     (init_fstate\<lparr>old_fis := [((None, Some 5, Some ''f''),
                                example_file (Some ''f'') (Some 5) True None [(''uid'', ''1'')])]\<rparr>)
     (example_file (Some ''f'') (Some 5) True None [(''uid'', ''2'')])
   = Inr (init_fstate\<lparr>fileobjects_unchanged :=
            [\<lparr>fobj = example_file (Some ''f'') (Some 5) True None [(''uid'', ''2'')],
              original_fileobject = Some (example_file (Some ''f'') (Some 5) True None [(''uid'', ''1'')]),
              diffs = {''uid''}\<rparr>]\<rparr>)
   \<and> process_file (example_lib [] []) default_config False []
       (init_fstate\<lparr>old_fis := [((None, Some 5, Some ''f''),
                                  example_file (Some ''f'') (Some 5) True None [(''uid'', ''1'')])]\<rparr>)
       (example_file (Some ''f'') (Some 5) True None [(''uid'', ''2'')])
     = Inr (init_fstate\<lparr>fileobjects_changed :=
              [\<lparr>fobj = example_file (Some ''f'') (Some 5) True None [(''uid'', ''2'')],
                original_fileobject = Some (example_file (Some ''f'') (Some 5) True None [(''uid'', ''1'')]),
                diffs = {''uid''}\<rparr>]\<rparr>)"
proof -
  let ?L = "example_lib [] []"
  let ?f = "example_file (Some ''f'') (Some 5) True None [(''uid'', ''2'')]"
  let ?old = "example_file (Some ''f'') (Some 5) True None [(''uid'', ''1'')]"
  let ?fs = "init_fstate\<lparr>old_fis := [((None, Some 5, Some ''f''), ?old)]\<rparr>"
  have 1: "\<not> ignore_filename_function cfg (filename ?f)"
    if "cfg = idifference_config \<or> cfg = default_config" for cfg
    using that
    by (auto simp: idifference_config_def default_config_def example_file_def ignorable_name_def
          basename_def)
  have 2: "normalize_partition ?L [] (if glom_byte_runs cfg then glom_runs ?L ?f else ?f) = Inr ?f"
    if "cfg = idifference_config \<or> cfg = default_config" for cfg
    using that
    by (auto simp: idifference_config_def default_config_def example_file_def normalize_partition_def)
  have 3: "alloc ?f = Some True"
    by (simp add: example_file_def)
  have k: "identity_key cfg ?f = (None, Some 5, Some ''f'')"
    if "cfg = idifference_config \<or> cfg = default_config" for cfg
    using that
    by (auto simp: identity_key_def idifference_config_def default_config_def example_file_def)
  have 4: "map_of (old_fis ?fs) (identity_key cfg ?f) = Some ?old"
    if "cfg = idifference_config \<or> cfg = default_config" for cfg
    by (simp add: k [OF that])
  have 5: "{''uid''} = compare_file ?L ?f ?old (ignore_properties cfg)"
    if "cfg = idifference_config \<or> cfg = default_config" for cfg
    using that
    by (auto simp: example_lib_def example_compare_def example_file_def
          idifference_config_def default_config_def)
  have 6: "[] = AList.delete (identity_key cfg ?f) (old_fis ?fs)"
    if "cfg = idifference_config \<or> cfg = default_config" for cfg
    by (simp add: k [OF that])
  have m: "diff_mode idifference_config = ''idifference''"
    "retain_unchanged idifference_config"
    "diff_mode default_config = ''all''" "ignore_properties default_config = {}"
    by (simp_all add: idifference_config_def default_config_def)
  have i: "idifference_config = idifference_config \<or> idifference_config = default_config"
    and d: "default_config = idifference_config \<or> default_config = default_config"
    by simp_all
  from direct_lookup_classification [OF 1 [OF i] 2 [OF i] 3 4 [OF i] 5 [OF i] refl refl 6 [OF i],
      THEN conjunct2] m
  have a: "process_file ?L idifference_config False [] ?fs ?f
           = Inr (init_fstate\<lparr>fileobjects_unchanged :=
                    [\<lparr>fobj = ?f, original_fileobject = Some ?old, diffs = {''uid''}\<rparr>]\<rparr>)"
    by (simp add: init_fstate_def)
  from direct_lookup_classification [OF 1 [OF d] 2 [OF d] 3 4 [OF d] 5 [OF d] refl refl 6 [OF d],
      THEN conjunct1] m
  have b: "process_file ?L default_config False [] ?fs ?f
           = Inr (init_fstate\<lparr>fileobjects_changed :=
                    [\<lparr>fobj = ?f, original_fileobject = Some ?old, diffs = {''uid''}\<rparr>]\<rparr>)"
    by (simp add: init_fstate_def)
  show ?thesis by (rule conjI [OF a b])
qed

subsection \<open>The subtraction in the pass over the unallocated file objects\<close>

text \<open>
  C2. With \<^verbatim>\<open>idifference\<close> and two unallocated file objects under one identity key
  that differ in the modification time, the pass subtracts the mask set where the direct
  lookup subtracts the ignore set, and then intersects with the mask set: nothing is
  left, and the pair goes to the unchanged list, although the effective diff of the
  specification is not empty.
\<close>

theorem unalloc_mask_subtracted:
  "(case differential (example_lib unalloc_pre unalloc_post) idifference_config ''pre'' ''post'' of
      Inl e \<Rightarrow> False
    | Inr (vs, fs, d) \<Rightarrow>
        fileobjects_changed fs = []
        \<and> map diffs (fileobjects_unchanged fs) = [{''mtime''}]
        \<and> spec_effective_diff (ignore_properties idifference_config)
             (diff_mask_set idifference_config) {''mtime''} = {''mtime''})"
  by code_simp

subsection \<open>The pass over the unallocated file objects\<close>

lemma unalloc_step_other_key:
  assumes "k \<noteq> key"
  shows "map_of (new_fis_unalloc (unalloc_step lib cfg k fs)) key = map_of (new_fis_unalloc fs) key"
    and "map_of (old_fis_unalloc (unalloc_step lib cfg k fs)) key = map_of (old_fis_unalloc fs) key"
    and "map_of (old_fis (unalloc_step lib cfg k fs)) key = map_of (old_fis fs) key"
  using assms
  by (simp_all add: unalloc_step_def Let_def AList.update_conv' AList.delete_conv'
        split: option.split)

lemma unalloc_step_deleted_grows:
  "set (fileobjects_deleted fs) \<subseteq> set (fileobjects_deleted (unalloc_step lib cfg k fs))"
  by (auto simp: unalloc_step_def Let_def split: option.split)

lemma unalloc_step_old_fis_None:
  "map_of (old_fis fs) key = None \<Longrightarrow> map_of (old_fis (unalloc_step lib cfg k fs)) key = None"
  by (simp add: unalloc_step_def Let_def AList.delete_conv' split: option.split)

lemma unalloc_step_popped:
  "map_of (new_fis_unalloc fs) key = Some [] \<Longrightarrow>
     map_of (new_fis_unalloc (unalloc_step lib cfg k fs)) key = Some []"
  by (cases "k = key")
     (simp_all add: unalloc_step_def Let_def AList.update_conv' split: option.split)

lemma unalloc_step_keeps_paired:
  "remnant_paired key entry fs \<Longrightarrow> remnant_paired key entry (unalloc_step lib cfg k fs)"
  unfolding remnant_paired_def
  using unalloc_step_deleted_grows [of fs lib cfg k] unalloc_step_old_fis_None unalloc_step_popped
  by blast

lemma fold_unalloc_keeps_paired:
  "remnant_paired key entry fs \<Longrightarrow> remnant_paired key entry (fold (unalloc_step lib cfg) ks fs)"
  by (induction ks arbitrary: fs) (simp_all add: unalloc_step_keeps_paired)

lemma unalloc_step_pairs:
  assumes "map_of (new_fis_unalloc fs) key = Some [new_obj]"
    and "map_of (old_fis_unalloc fs) key = None"
    and "map_of (old_fis fs) key = Some old_fobj"
  shows "remnant_paired key
           \<lparr>fobj = new_obj, original_fileobject = Some old_fobj,
            diffs = compare_file lib new_obj old_fobj (diff_file_ignores cfg)\<rparr>
           (unalloc_step lib cfg key fs)"
  using assms
  by (simp add: remnant_paired_def unalloc_step_def AList.update_conv' AList.delete_conv')

lemma fold_unalloc_pairs:
  assumes "key \<in> set ks"
    and "map_of (new_fis_unalloc fs) key = Some [new_obj]"
    and "map_of (old_fis_unalloc fs) key = None"
    and "map_of (old_fis fs) key = Some old_fobj"
  shows "remnant_paired key
           \<lparr>fobj = new_obj, original_fileobject = Some old_fobj,
            diffs = compare_file lib new_obj old_fobj (diff_file_ignores cfg)\<rparr>
           (fold (unalloc_step lib cfg) ks fs)"
  using assms
proof (induction ks arbitrary: fs)
  case Nil
  then show ?case by simp
next
  case (Cons k ks)
  show ?case
  proof (cases "k = key")
    case True
    with Cons.prems show ?thesis
      by (simp add: fold_unalloc_keeps_paired unalloc_step_pairs)
  next
    case False
    with Cons.prems have "key \<in> set ks" by simp
    with Cons.IH [of "unalloc_step lib cfg k fs"] Cons.prems(2-4) False
    show ?thesis by (simp add: unalloc_step_other_key)
  qed
qed

text \<open>
  C6, as the program has it. An unallocated file object of the second manifest that is
  alone under its identity key, whose key is not a key of the first manifest's
  dictionary of unallocated file objects and is a key of what is left of its dictionary
  of allocated ones, is paired with that file object, compared, and appended to the
  deleted list; both are taken out of their dictionaries.
\<close>

theorem unalloc_remnant_deleted:
  assumes "map_of (new_fis_unalloc fs) key = Some [new_obj]"
    and "map_of (old_fis_unalloc fs) key = None"
    and "map_of (old_fis fs) key = Some old_fobj"
  shows "\<lparr>fobj = new_obj, original_fileobject = Some old_fobj,
           diffs = compare_file lib new_obj old_fobj (diff_file_ignores cfg)\<rparr>
           \<in> set (fileobjects_deleted (detect_unalloc lib cfg fs))
         \<and> map_of (old_fis (detect_unalloc lib cfg fs)) key = None
         \<and> map_of (new_fis_unalloc (detect_unalloc lib cfg fs)) key = Some []"
proof -
  let ?fs0 = "fs\<lparr>fileobjects_deleted := []\<rparr>"
  from assms(1) have "key \<in> set (map fst (new_fis_unalloc ?fs0))"
    by (auto dest: map_of_SomeD intro: rev_image_eqI)
  from fold_unalloc_pairs [OF this, where fs = ?fs0 and new_obj = new_obj and old_fobj = old_fobj
      and lib = lib and cfg = cfg] assms
  show ?thesis
    by (simp add: detect_unalloc_def remnant_paired_def)
qed

theorem unalloc_remnant_deleted_witness:
  "fileobjects_deleted
     (detect_unalloc (example_lib [] []) default_config
        (init_fstate\<lparr>old_fis := [((None, Some 5, Some ''f''),
                                   example_file (Some ''f'') (Some 5) True None [])],
                      new_fis_unalloc := [((None, Some 5, Some ''f''),
                                   [example_file (Some ''f'') (Some 5) False None []])]\<rparr>))
   = [\<lparr>fobj = example_file (Some ''f'') (Some 5) False None [],
       original_fileobject = Some (example_file (Some ''f'') (Some 5) True None []),
       diffs = {}\<rparr>]"
proof -
  let ?a = "example_file (Some ''f'') (Some 5) True None []"
  let ?b = "example_file (Some ''f'') (Some 5) False None []"
  let ?fs = "init_fstate\<lparr>old_fis := [((None, Some 5, Some ''f''), ?a)],
                        new_fis_unalloc := [((None, Some 5, Some ''f''), [?b])]\<rparr>"
  have 1: "map_of (new_fis_unalloc ?fs) (None, Some 5, Some ''f'') = Some [?b]"
    by simp
  have 2: "map_of (old_fis_unalloc ?fs) (None, Some 5, Some ''f'') = None"
    by (simp add: init_fstate_def)
  have 3: "map_of (old_fis ?fs) (None, Some 5, Some ''f'') = Some ?a"
    by simp
  have c: "compare_file (example_lib [] []) ?b ?a (diff_file_ignores default_config) = {}"
    by (simp add: example_lib_def example_compare_def example_file_def)
  have l: "length (fileobjects_deleted (detect_unalloc (example_lib [] []) default_config ?fs)) = 1"
    by (simp add: detect_unalloc_def unalloc_step_def init_fstate_def Let_def)
  from unalloc_remnant_deleted [OF 1 2 3, of "example_lib [] []" default_config, THEN conjunct1] l
  show ?thesis
    by (cases "fileobjects_deleted (detect_unalloc (example_lib [] []) default_config ?fs)")
       (simp_all add: c)
qed

text \<open>
  C6, as the claim has it, fails: the file object of the second manifest is alone under
  its key and the key is still in the dictionary of allocated file objects of the first
  manifest, but the key is also a key of its unallocated ones (two of them), and nothing
  is appended to the deleted list.
\<close>

theorem remnant_not_paired:
  "(case differential (example_lib remnant_pre remnant_post) default_config ''pre'' ''post'' of
      Inl e \<Rightarrow> False
    | Inr (vs, fs, d) \<Rightarrow>
        map_of (new_fis_unalloc fs) (None, Some 5, Some ''f'')
          = Some [example_file (Some ''f'') (Some 5) False None []]
        \<and> map_of (old_fis fs) (None, Some 5, Some ''f'')
          = Some (example_file (Some ''f'') (Some 5) True None [])
        \<and> fileobjects_deleted fs = [])"
  by code_simp

subsection \<open>The annotations of the output\<close>

lemma fold_err_append_file:
  "fold_err (append_file ordinals) xs acc = Inr r \<Longrightarrow> r = acc @ xs"
proof (induction xs arbitrary: acc)
  case Nil
  then show ?case by simp
next
  case (Cons x xs)
  from Cons.prems have "append_file ordinals x acc = Inr (acc @ [x])"
    by (auto simp: append_file_def split: option.splits if_splits)
  with Cons.prems Cons.IH [of "acc @ [x]"] show ?case by simp
qed

lemma assemble_doc_files:
  "assemble cfg vs fs d0 = Inr d \<Longrightarrow> doc_files d = doc_files d0 @ output_files cfg fs"
  by (auto simp: assemble_def split: sum.splits dest: fold_err_append_file)

lemma output_of_out_deleted:
  "output_of fi (out_deleted cfg fi) (diffs fi \<inter> {''md5'', ''sha1'', ''sha256''} \<noteq> {})
     (diffs fi - {''md5'', ''sha1'', ''sha256''} \<noteq> {})"
proof -
  have c: "content_diffs \<inter> diffs fi = diffs fi \<inter> {''md5'', ''sha1'', ''sha256''}"
    unfolding content_diffs_def by (rule Int_commute)
  show ?thesis
    unfolding output_of_def out_deleted_def maybe_match_attr_def add_anno_def c
    by (simp add: content_diffs_def)
qed

lemma output_of_out_renamed:
  "output_of fi (out_renamed cfg fi) (diffs fi \<inter> {''md5'', ''sha1'', ''sha256''} \<noteq> {})
     (diffs fi - {''md5'', ''sha1'', ''sha256''} \<noteq> {})"
proof -
  have c: "content_diffs \<inter> diffs fi = diffs fi \<inter> {''md5'', ''sha1'', ''sha256''}"
    unfolding content_diffs_def by (rule Int_commute)
  show ?thesis
    unfolding output_of_def out_renamed_def maybe_match_attr_def add_anno_def c
    by (simp add: content_diffs_def)
qed

lemma output_of_out_changed:
  "output_of fi (out_changed cfg fi) (diffs fi \<inter> {''md5'', ''sha1'', ''sha256''} \<noteq> {})
     (diffs fi - {''md5'', ''sha1'', ''sha256''} \<noteq> {})"
proof -
  have c: "content_diffs \<inter> diffs fi = diffs fi \<inter> {''md5'', ''sha1'', ''sha256''}"
    unfolding content_diffs_def by (rule Int_commute)
  show ?thesis
    unfolding output_of_def out_changed_def maybe_match_attr_def add_anno_def c
    by (simp add: content_diffs_def)
qed

lemma output_of_out_unchanged: "output_of fi (out_unchanged cfg fi) False False"
  unfolding output_of_def out_unchanged_def maybe_match_attr_def add_anno_def
  by simp

lemma list_all2_map_same: "(\<And>x. P x (f x)) \<Longrightarrow> list_all2 P xs (map f xs)"
  by (simp add: list_all2_map2 list_all2_same)

text \<open>
  C8, as the program has it. The records that the output adds to the document are, in
  this order: the new ones, those of the deleted list, the placeholders of what is left
  of the first manifest, those of the renamed list, those of the changed list, those of
  the unchanged list. A record of the deleted, the renamed or the changed list carries
  \<^verbatim>\<open>modified\<close> exactly when the diffs that the comparison left on it (the raw ones)
  contain a content hash, and \<^verbatim>\<open>changed\<close> exactly when they contain another
  attribute (or when the record came with the label); a record of the unchanged list
  gets neither.
\<close>

theorem annotations_from_raw_diffs:
  assumes "assemble cfg vs fs d0 = Inr d"
  shows "\<exists>deleted_out renamed_out changed_out unchanged_out.
           doc_files d =
             doc_files d0
             @ map (\<lambda>(key, fi). out_new fi) (new_fis fs)
             @ concat (map (\<lambda>(key, fis). map out_new fis) (new_fis_unalloc fs))
             @ deleted_out
             @ map (\<lambda>(key, ofi). out_placeholder ofi) (old_fis fs)
             @ concat (map (\<lambda>(key, ofis). map out_placeholder ofis) (old_fis_unalloc fs))
             @ renamed_out @ changed_out @ unchanged_out
           \<and> list_all2
               (\<lambda>fi out. output_of fi out (diffs fi \<inter> {''md5'', ''sha1'', ''sha256''} \<noteq> {})
                            (diffs fi - {''md5'', ''sha1'', ''sha256''} \<noteq> {}))
               (fileobjects_deleted fs) deleted_out
           \<and> list_all2
               (\<lambda>fi out. output_of fi out (diffs fi \<inter> {''md5'', ''sha1'', ''sha256''} \<noteq> {})
                            (diffs fi - {''md5'', ''sha1'', ''sha256''} \<noteq> {}))
               (fileobjects_renamed fs) renamed_out
           \<and> list_all2
               (\<lambda>fi out. output_of fi out (diffs fi \<inter> {''md5'', ''sha1'', ''sha256''} \<noteq> {})
                            (diffs fi - {''md5'', ''sha1'', ''sha256''} \<noteq> {}))
               (fileobjects_changed fs) changed_out
           \<and> list_all2 (\<lambda>fi out. output_of fi out False False)
               (fileobjects_unchanged fs) unchanged_out"
proof (intro exI conjI)
  show "doc_files d =
             doc_files d0
             @ map (\<lambda>(key, fi). out_new fi) (new_fis fs)
             @ concat (map (\<lambda>(key, fis). map out_new fis) (new_fis_unalloc fs))
             @ map (out_deleted cfg) (fileobjects_deleted fs)
             @ map (\<lambda>(key, ofi). out_placeholder ofi) (old_fis fs)
             @ concat (map (\<lambda>(key, ofis). map out_placeholder ofis) (old_fis_unalloc fs))
             @ map (out_renamed cfg) (fileobjects_renamed fs)
             @ map (out_changed cfg) (fileobjects_changed fs)
             @ map (out_unchanged cfg) (fileobjects_unchanged fs)"
    unfolding assemble_doc_files [OF assms] output_files_def by (rule refl)
  show "list_all2
               (\<lambda>fi out. output_of fi out (diffs fi \<inter> {''md5'', ''sha1'', ''sha256''} \<noteq> {})
                            (diffs fi - {''md5'', ''sha1'', ''sha256''} \<noteq> {}))
               (fileobjects_deleted fs) (map (out_deleted cfg) (fileobjects_deleted fs))"
    by (rule list_all2_map_same) (rule output_of_out_deleted)
  show "list_all2
               (\<lambda>fi out. output_of fi out (diffs fi \<inter> {''md5'', ''sha1'', ''sha256''} \<noteq> {})
                            (diffs fi - {''md5'', ''sha1'', ''sha256''} \<noteq> {}))
               (fileobjects_renamed fs) (map (out_renamed cfg) (fileobjects_renamed fs))"
    by (rule list_all2_map_same) (rule output_of_out_renamed)
  show "list_all2
               (\<lambda>fi out. output_of fi out (diffs fi \<inter> {''md5'', ''sha1'', ''sha256''} \<noteq> {})
                            (diffs fi - {''md5'', ''sha1'', ''sha256''} \<noteq> {}))
               (fileobjects_changed fs) (map (out_changed cfg) (fileobjects_changed fs))"
    by (rule list_all2_map_same) (rule output_of_out_changed)
  show "list_all2 (\<lambda>fi out. output_of fi out False False)
               (fileobjects_unchanged fs) (map (out_unchanged cfg) (fileobjects_unchanged fs))"
    by (rule list_all2_map_same) (rule output_of_out_unchanged)
qed

theorem annotations_from_raw_diffs_witness:
  "assemble idifference_config init_vstate annotated_fs empty_document
     = Inr \<lparr>doc_volumes = [], doc_files = output_files idifference_config annotated_fs\<rparr>
   \<and> map (\<lambda>(p, fi). (filename (fobj fi), annos (fobj fi)))
       (output_files idifference_config annotated_fs)
     = [(Some ''g'', {''modified'', ''deleted''}),
        (Some ''b.txt'', {''changed'', ''renamed''}),
        (Some ''f'', {''modified'', ''changed''}),
        (Some ''u'', {})]
   \<and> (\<exists>deleted_out renamed_out changed_out unchanged_out.
         doc_files \<lparr>doc_volumes = [], doc_files = output_files idifference_config annotated_fs\<rparr> =
           doc_files empty_document
           @ map (\<lambda>(key, fi). out_new fi) (new_fis annotated_fs)
           @ concat (map (\<lambda>(key, fis). map out_new fis) (new_fis_unalloc annotated_fs))
           @ deleted_out
           @ map (\<lambda>(key, ofi). out_placeholder ofi) (old_fis annotated_fs)
           @ concat (map (\<lambda>(key, ofis). map out_placeholder ofis) (old_fis_unalloc annotated_fs))
           @ renamed_out @ changed_out @ unchanged_out
         \<and> list_all2
             (\<lambda>fi out. output_of fi out (diffs fi \<inter> {''md5'', ''sha1'', ''sha256''} \<noteq> {})
                          (diffs fi - {''md5'', ''sha1'', ''sha256''} \<noteq> {}))
             (fileobjects_deleted annotated_fs) deleted_out
         \<and> list_all2
             (\<lambda>fi out. output_of fi out (diffs fi \<inter> {''md5'', ''sha1'', ''sha256''} \<noteq> {})
                          (diffs fi - {''md5'', ''sha1'', ''sha256''} \<noteq> {}))
             (fileobjects_renamed annotated_fs) renamed_out
         \<and> list_all2
             (\<lambda>fi out. output_of fi out (diffs fi \<inter> {''md5'', ''sha1'', ''sha256''} \<noteq> {})
                          (diffs fi - {''md5'', ''sha1'', ''sha256''} \<noteq> {}))
             (fileobjects_changed annotated_fs) changed_out
         \<and> list_all2 (\<lambda>fi out. output_of fi out False False)
             (fileobjects_unchanged annotated_fs) unchanged_out)"
proof -
  have o: "fst x = None" if "x \<in> set (output_files idifference_config annotated_fs)" for x
    using that
    by (auto simp: output_files_def annotated_fs_def init_fstate_def sha256_entry_def
          example_file_def out_deleted_def out_renamed_def out_changed_def out_unchanged_def)
  have f: "fold_err (append_file ordinals) xs acc = Inr (acc @ xs)"
    if "\<forall>x \<in> set xs. fst x = None" for ordinals xs acc
    using that by (induction xs arbitrary: acc) (simp_all add: append_file_def)
  have a: "assemble idifference_config init_vstate annotated_fs empty_document
             = Inr \<lparr>doc_volumes = [], doc_files = output_files idifference_config annotated_fs\<rparr>"
    using f [of "output_files idifference_config annotated_fs" "[]" "[]"] o
    by (simp add: assemble_def build_appenders_def annotate_volumes_def init_vstate_def
          empty_document_def)
  have b: "map (\<lambda>(p, fi). (filename (fobj fi), annos (fobj fi)))
             (output_files idifference_config annotated_fs)
           = [(Some ''g'', {''modified'', ''deleted''}),
              (Some ''b.txt'', {''changed'', ''renamed''}),
              (Some ''f'', {''modified'', ''changed''}),
              (Some ''u'', {})]"
    by code_simp
  show ?thesis
    by (intro conjI) (rule a b annotations_from_raw_diffs [OF a])+
qed

text \<open>
  C8, as the claim has it, fails: with \<^verbatim>\<open>idifference\<close> the effective diff of the
  pair is the modification time alone, without any content hash, and the output carries
  \<^verbatim>\<open>modified\<close>, from the SHA-256 in the raw diffs.
\<close>

theorem modified_from_raw_diffs:
  "(case make_differential_dfxml (example_lib sha256_pre sha256_post) idifference_config ''pre'' ''post'' of
      Inl e \<Rightarrow> False
    | Inr d \<Rightarrow>
        map (\<lambda>(p, fi). (''modified'' \<in> annos (fobj fi),
                        spec_effective_diff (ignore_properties idifference_config)
                          (diff_mask_set idifference_config) (diffs fi)))
          (doc_files d) = [(True, {''mtime''})])"
  by code_simp

subsection \<open>The detection of renames\<close>

lemma names_at_keys: "names_at d pi = {fn. (fst pi, snd pi, fn) \<in> set (map fst d)}"
  by (auto simp: names_at_def map_of_eq_None_iff)

lemma name_map_fold:
  fixes ks :: "fkey list"
  defines "g \<equiv> (\<lambda>retdict (p, i, fn).
              AList.update (p, i)
                (List.insert fn (case map_of retdict (p, i) of None \<Rightarrow> [] | Some s \<Rightarrow> s))
                retdict)"
  shows "distinct (map fst (foldl g [] ks))
         \<and> (\<forall>pi. case map_of (foldl g [] ks) pi of
                    None \<Rightarrow> {fn. (fst pi, snd pi, fn) \<in> set ks} = {}
                  | Some l \<Rightarrow> distinct l \<and> set l = {fn. (fst pi, snd pi, fn) \<in> set ks})"
proof (induction ks rule: rev_induct)
  case Nil
  show ?case by simp
next
  case (snoc k ks)
  obtain p i fn where k: "k = (p, i, fn)" by (cases k) auto
  let ?m = "foldl g [] ks"
  let ?l0 = "case map_of ?m (p, i) of None \<Rightarrow> [] | Some s \<Rightarrow> s"
  have step: "foldl g [] (ks @ [k]) = AList.update (p, i) (List.insert fn ?l0) ?m"
    by (simp add: k g_def)
  from snoc.IH have d: "distinct (map fst ?m)" by simp
  from snoc.IH have inv: "case map_of ?m pi of
                    None \<Rightarrow> {fn. (fst pi, snd pi, fn) \<in> set ks} = {}
                  | Some l \<Rightarrow> distinct l \<and> set l = {fn. (fst pi, snd pi, fn) \<in> set ks}" for pi
    by blast
  have l0: "distinct ?l0 \<and> set ?l0 = {fn. (p, i, fn) \<in> set ks}"
    using inv [of "(p, i)"] by (simp split: option.splits)
  have "case map_of (foldl g [] (ks @ [k])) pi of
                    None \<Rightarrow> {fn. (fst pi, snd pi, fn) \<in> set (ks @ [k])} = {}
                  | Some l \<Rightarrow> distinct l \<and> set l = {fn. (fst pi, snd pi, fn) \<in> set (ks @ [k])}" for pi
  proof (cases "pi = (p, i)")
    case True
    have m: "map_of (foldl g [] (ks @ [k])) pi = Some (List.insert fn ?l0)"
      unfolding step True by (simp add: AList.update_conv')
    have s: "{fn'. (fst pi, snd pi, fn') \<in> set (ks @ [k])} = insert fn {fn'. (p, i, fn') \<in> set ks}"
      using True k by auto
    show ?thesis
      unfolding m s using l0 by simp
  next
    case False
    have m: "map_of (foldl g [] (ks @ [k])) pi = map_of ?m pi"
      unfolding step using False by (simp add: AList.update_conv')
    have s: "{fn. (fst pi, snd pi, fn) \<in> set (ks @ [k])} = {fn. (fst pi, snd pi, fn) \<in> set ks}"
      using False by (auto simp: k)
    show ?thesis
      unfolding m s by (rule inv)
  qed
  moreover have "distinct (map fst (foldl g [] (ks @ [k])))"
    unfolding step using d by (rule AList.distinct_update)
  ultimately show ?case by blast
qed

lemma make_name_map_ok: "names_ok (make_name_map d) d pi"
  using name_map_fold [of "map fst d"]
  unfolding names_ok_def make_name_map_def names_at_keys
  by blast

lemma make_name_map_distinct: "distinct (map fst (make_name_map d))"
  using name_map_fold [of "map fst d"]
  unfolding make_name_map_def by blast
lemma distinct_singleton_set: "distinct l \<Longrightarrow> set l = {x} \<longleftrightarrow> l = [x]"
proof
  assume d: "distinct l" and s: "set l = {x}"
  then have "card (set l) = 1" by simp
  with d have "length l = 1" by (simp add: distinct_card)
  then obtain y where "l = [y]" by (cases l) auto
  with s show "l = [x]" by simp
qed simp

lemma length_one_hd: "length l = 1 \<and> hd l = x \<longleftrightarrow> l = [x]"
  by (cases l) auto

lemma names_ok_single:
  "names_ok m d pi \<Longrightarrow>
     names_at d pi = {x} \<longleftrightarrow> (\<exists>l. map_of m pi = Some l \<and> length l = 1 \<and> hd l = x)"
proof (cases "map_of m pi")
  case None
  assume "names_ok m d pi"
  with None have "names_at d pi = {}" by (simp add: names_ok_def)
  with None show ?thesis by simp
next
  case (Some l)
  assume "names_ok m d pi"
  with Some have l: "distinct l" "set l = names_at d pi" by (simp_all add: names_ok_def)
  have "names_at d pi = {x} \<longleftrightarrow> l = [x]"
    using distinct_singleton_set [OF l(1), of x] l(2) by simp
  also have "\<dots> \<longleftrightarrow> (\<exists>l'. map_of m pi = Some l' \<and> length l' = 1 \<and> hd l' = x)"
    unfolding length_one_hd Some by simp
  finally show ?thesis .
qed

lemma names_at_member: "names_at d pi = {x} \<Longrightarrow> \<exists>v. map_of d (fst pi, snd pi, x) = Some v"
  unfolding names_at_def by blast

lemma rename_candidate_code:
  assumes "names_ok old_inode_names (old_fis fs) pi" and "names_ok new_inode_names (new_fis fs) pi"
  shows "rename_candidate lib cfg fs pi e \<longleftrightarrow>
     (\<exists>new_names old_names old_fobj new_obj.
        map_of new_inode_names pi = Some new_names \<and> length new_names = 1
        \<and> map_of old_inode_names pi = Some old_names \<and> length old_names = 1
        \<and> map_of (old_fis fs) (fst pi, snd pi, hd old_names) = Some old_fobj
        \<and> map_of (new_fis fs) (fst pi, snd pi, hd new_names) = Some new_obj
        \<and> (rename_requires_hash cfg \<longrightarrow> sha1 old_fobj = sha1 new_obj)
        \<and> e = \<lparr>fobj = new_obj, original_fileobject = Some old_fobj,
                diffs = compare_file lib new_obj old_fobj (diff_file_ignores cfg)\<rparr>)"
  unfolding rename_candidate_def names_ok_single [OF assms(1)] names_ok_single [OF assms(2)]
  by blast

lemma names_at_delete_single:
  "names_at d pi = {x} \<Longrightarrow> names_at (AList.delete (fst pi, snd pi, x) d) pi = {}"
  unfolding names_at_def
  by (auto simp: AList.delete_conv')

lemma map_of_delete_other_pi:
  "(fst k, fst (snd k)) \<noteq> pi \<Longrightarrow> map_of (AList.delete (fst pi, snd pi, x) d) k = map_of d k"
  by (cases k) (auto simp: AList.delete_conv')

text \<open>What one turn of the loop does, given name maps that agree with the dictionaries.\<close>

lemma rename_step_no_candidate:
  assumes "names_ok old_inode_names (old_fis fs) pi" and "names_ok new_inode_names (new_fis fs) pi"
    and "\<And>e. \<not> rename_candidate lib cfg fs pi e"
  shows "rename_step lib cfg pi (old_inode_names, new_inode_names, fs)
           = Inr (old_inode_names, new_inode_names, fs)"
proof (cases "\<exists>new_names old_names. map_of new_inode_names pi = Some new_names \<and> length new_names = 1
        \<and> map_of old_inode_names pi = Some old_names \<and> length old_names = 1")
  case False
  then show ?thesis
    by (auto simp: rename_step_def split: option.splits)
next
  case True
  then obtain new_names old_names where
    n: "map_of new_inode_names pi = Some new_names" "length new_names = 1" and
    o: "map_of old_inode_names pi = Some old_names" "length old_names = 1"
    by blast
  from names_ok_single [OF assms(1), of "hd old_names"] o
  obtain old_fobj where of: "map_of (old_fis fs) (fst pi, snd pi, hd old_names) = Some old_fobj"
    using names_at_member by blast
  from names_ok_single [OF assms(2), of "hd new_names"] n
  obtain new_obj where nf: "map_of (new_fis fs) (fst pi, snd pi, hd new_names) = Some new_obj"
    using names_at_member by blast
  from assms(3) have "rename_requires_hash cfg \<and> sha1 old_fobj \<noteq> sha1 new_obj"
    unfolding rename_candidate_code [OF assms(1,2)] using n o of nf by blast
  with n o of nf show ?thesis
    by (simp add: rename_step_def)
qed

lemma rename_step_candidate:
  assumes "names_ok old_inode_names (old_fis fs) pi" and "names_ok new_inode_names (new_fis fs) pi"
    and "rename_candidate lib cfg fs pi e"
  shows "\<exists>old_name new_name.
           names_at (old_fis fs) pi = {old_name} \<and> names_at (new_fis fs) pi = {new_name}
           \<and> rename_step lib cfg pi (old_inode_names, new_inode_names, fs)
               = Inr (AList.update pi [] old_inode_names, AList.update pi [] new_inode_names,
                      fs\<lparr>old_fis := AList.delete (fst pi, snd pi, old_name) (old_fis fs),
                         new_fis := AList.delete (fst pi, snd pi, new_name) (new_fis fs),
                         fileobjects_renamed := fileobjects_renamed fs @ [e]\<rparr>)"
proof -
  from assms(3) obtain new_names old_names old_fobj new_obj where
    n: "map_of new_inode_names pi = Some new_names" "length new_names = 1" and
    o: "map_of old_inode_names pi = Some old_names" "length old_names = 1" and
    of: "map_of (old_fis fs) (fst pi, snd pi, hd old_names) = Some old_fobj" and
    nf: "map_of (new_fis fs) (fst pi, snd pi, hd new_names) = Some new_obj" and
    h: "rename_requires_hash cfg \<longrightarrow> sha1 old_fobj = sha1 new_obj" and
    e: "e = \<lparr>fobj = new_obj, original_fileobject = Some old_fobj,
                diffs = compare_file lib new_obj old_fobj (diff_file_ignores cfg)\<rparr>"
    unfolding rename_candidate_code [OF assms(1,2)] by blast
  have 1: "names_at (old_fis fs) pi = {hd old_names}"
    using names_ok_single [OF assms(1), of "hd old_names"] o by simp
  have 2: "names_at (new_fis fs) pi = {hd new_names}"
    using names_ok_single [OF assms(2), of "hd new_names"] n by simp
  have 3: "rename_step lib cfg pi (old_inode_names, new_inode_names, fs)
               = Inr (AList.update pi [] old_inode_names, AList.update pi [] new_inode_names,
                      fs\<lparr>old_fis := AList.delete (fst pi, snd pi, hd old_names) (old_fis fs),
                         new_fis := AList.delete (fst pi, snd pi, hd new_names) (new_fis fs),
                         fileobjects_renamed := fileobjects_renamed fs @ [e]\<rparr>)"
    using n o of nf h by (auto simp: rename_step_def e)
  from 1 2 3 show ?thesis by blast
qed

lemma rename_candidate_unique:
  "rename_candidate lib cfg fs pi e \<Longrightarrow> rename_candidate lib cfg fs pi e' \<Longrightarrow> e = e'"
  unfolding rename_candidate_def by (elim exE conjE) simp
lemma rename_candidate_cong:
  assumes "\<And>fn. map_of (old_fis fs1) (fst pi, snd pi, fn) = map_of (old_fis fs) (fst pi, snd pi, fn)"
    and "\<And>fn. map_of (new_fis fs1) (fst pi, snd pi, fn) = map_of (new_fis fs) (fst pi, snd pi, fn)"
  shows "rename_candidate lib cfg fs1 pi e = rename_candidate lib cfg fs pi e"
  unfolding rename_candidate_def names_at_def by (simp add: assms)

lemma names_ok_cong:
  assumes "map_of m1 pi = map_of m pi"
    and "\<And>fn. map_of d1 (fst pi, snd pi, fn) = map_of d (fst pi, snd pi, fn)"
  shows "names_ok m1 d1 pi = names_ok m d pi"
proof -
  have "names_at d1 pi = names_at d pi"
    unfolding names_at_def by (simp add: assms(2))
  then show ?thesis
    by (simp add: names_ok_def assms(1) cong: option.case_cong)
qed

lemma names_at_empty_lookup:
  "names_at d pi = {} \<Longrightarrow> (fst k, fst (snd k)) = pi \<Longrightarrow> map_of d k = None"
  unfolding names_at_def by (cases k) auto

text \<open>
  The loop: it never raises, the renamed list grows by the candidates at the keys
  walked, both file objects of a candidate leave their dictionaries, and nothing else
  changes.
\<close>

lemma rename_loop:
  assumes "distinct ks"
    and "\<And>pi. pi \<in> set ks \<Longrightarrow> names_ok old_names (old_fis fs) pi \<and> names_ok new_names (new_fis fs) pi"
  shows "\<exists>old_names' new_names' fs'.
     fold_err (rename_step lib cfg) ks (old_names, new_names, fs) = Inr (old_names', new_names', fs')
     \<and> set (fileobjects_renamed fs')
         = set (fileobjects_renamed fs) \<union> {e. \<exists>pi \<in> set ks. rename_candidate lib cfg fs pi e}
     \<and> (\<forall>k. (fst k, fst (snd k)) \<in> set ks \<and> (\<exists>e. rename_candidate lib cfg fs (fst k, fst (snd k)) e)
            \<longrightarrow> map_of (old_fis fs') k = None \<and> map_of (new_fis fs') k = None)
     \<and> (\<forall>k. \<not> ((fst k, fst (snd k)) \<in> set ks \<and> (\<exists>e. rename_candidate lib cfg fs (fst k, fst (snd k)) e))
            \<longrightarrow> map_of (old_fis fs') k = map_of (old_fis fs) k
                \<and> map_of (new_fis fs') k = map_of (new_fis fs) k)
     \<and> fileobjects_changed fs' = fileobjects_changed fs
     \<and> fileobjects_unchanged fs' = fileobjects_unchanged fs
     \<and> fileobjects_deleted fs' = fileobjects_deleted fs
     \<and> old_fis_unalloc fs' = old_fis_unalloc fs
     \<and> new_fis_unalloc fs' = new_fis_unalloc fs"
  using assms
proof (induction ks arbitrary: old_names new_names fs)
  case Nil
  show ?case by simp
next
  case (Cons pi ks)
  from Cons.prems(2) [of pi]
  have ok: "names_ok old_names (old_fis fs) pi" "names_ok new_names (new_fis fs) pi"
    by simp_all
  from Cons.prems(1) have dist: "distinct ks" and fresh: "pi \<notin> set ks" by simp_all
  show ?case
  proof (cases "\<exists>e. rename_candidate lib cfg fs pi e")
    case False
    then have step: "rename_step lib cfg pi (old_names, new_names, fs) = Inr (old_names, new_names, fs)"
      using rename_step_no_candidate [OF ok] by blast
    from Cons.IH [OF dist, of old_names fs new_names] Cons.prems(2)
    obtain old_names' new_names' fs' where
      r: "fold_err (rename_step lib cfg) ks (old_names, new_names, fs) = Inr (old_names', new_names', fs')"
      and s: "set (fileobjects_renamed fs')
         = set (fileobjects_renamed fs) \<union> {e. \<exists>pi \<in> set ks. rename_candidate lib cfg fs pi e}"
      and gone: "\<And>k. (fst k, fst (snd k)) \<in> set ks \<and> (\<exists>e. rename_candidate lib cfg fs (fst k, fst (snd k)) e)
            \<Longrightarrow> map_of (old_fis fs') k = None \<and> map_of (new_fis fs') k = None"
      and kept: "\<And>k. \<not> ((fst k, fst (snd k)) \<in> set ks \<and> (\<exists>e. rename_candidate lib cfg fs (fst k, fst (snd k)) e))
            \<Longrightarrow> map_of (old_fis fs') k = map_of (old_fis fs) k
                \<and> map_of (new_fis fs') k = map_of (new_fis fs) k"
      and rest: "fileobjects_changed fs' = fileobjects_changed fs"
        "fileobjects_unchanged fs' = fileobjects_unchanged fs"
        "fileobjects_deleted fs' = fileobjects_deleted fs"
        "old_fis_unalloc fs' = old_fis_unalloc fs"
        "new_fis_unalloc fs' = new_fis_unalloc fs"
      by (auto simp del: fold_err.simps)
    have 1: "fold_err (rename_step lib cfg) (pi # ks) (old_names, new_names, fs)
               = Inr (old_names', new_names', fs')"
      by (simp add: step r)
    have 2: "set (fileobjects_renamed fs')
         = set (fileobjects_renamed fs) \<union> {e. \<exists>pi \<in> set (pi # ks). rename_candidate lib cfg fs pi e}"
      unfolding s using False by auto
    have 3: "map_of (old_fis fs') k = None \<and> map_of (new_fis fs') k = None"
      if "(fst k, fst (snd k)) \<in> set (pi # ks) \<and> (\<exists>e. rename_candidate lib cfg fs (fst k, fst (snd k)) e)"
      for k
      using that False gone [of k] by auto
    have 4: "map_of (old_fis fs') k = map_of (old_fis fs) k
                \<and> map_of (new_fis fs') k = map_of (new_fis fs) k"
      if "\<not> ((fst k, fst (snd k)) \<in> set (pi # ks) \<and> (\<exists>e. rename_candidate lib cfg fs (fst k, fst (snd k)) e))"
      for k
      using that False kept [of k] by auto
    from 1 2 3 4 rest show ?thesis by blast
  next
    case True
    then obtain e where e: "rename_candidate lib cfg fs pi e" by blast
    from rename_step_candidate [OF ok e] obtain old_name new_name where
      n1: "names_at (old_fis fs) pi = {old_name}" and n2: "names_at (new_fis fs) pi = {new_name}"
      and step: "rename_step lib cfg pi (old_names, new_names, fs)
               = Inr (AList.update pi [] old_names, AList.update pi [] new_names,
                      fs\<lparr>old_fis := AList.delete (fst pi, snd pi, old_name) (old_fis fs),
                         new_fis := AList.delete (fst pi, snd pi, new_name) (new_fis fs),
                         fileobjects_renamed := fileobjects_renamed fs @ [e]\<rparr>)"
      by blast
    let ?on1 = "AList.update pi [] old_names"
    let ?nn1 = "AList.update pi [] new_names"
    let ?fs1 = "fs\<lparr>old_fis := AList.delete (fst pi, snd pi, old_name) (old_fis fs),
                         new_fis := AList.delete (fst pi, snd pi, new_name) (new_fis fs),
                         fileobjects_renamed := fileobjects_renamed fs @ [e]\<rparr>"
    have other: "map_of (old_fis ?fs1) k = map_of (old_fis fs) k
               \<and> map_of (new_fis ?fs1) k = map_of (new_fis fs) k"
      if "(fst k, fst (snd k)) \<noteq> pi" for k
      using that by (simp add: map_of_delete_other_pi)
    have at_pi: "map_of (old_fis ?fs1) k = None \<and> map_of (new_fis ?fs1) k = None"
      if "(fst k, fst (snd k)) = pi" for k
      using that names_at_delete_single [OF n1] names_at_delete_single [OF n2]
      by (simp add: names_at_empty_lookup)
    have cand1: "rename_candidate lib cfg ?fs1 pi' e' = rename_candidate lib cfg fs pi' e'"
      if "pi' \<noteq> pi" for pi' e'
      by (rule rename_candidate_cong) (use that other in auto)
    have ok1: "names_ok ?on1 (old_fis ?fs1) pi' \<and> names_ok ?nn1 (new_fis ?fs1) pi'"
      if "pi' \<in> set ks" for pi'
    proof -
      from that fresh have ne: "pi' \<noteq> pi" by auto
      have "names_ok ?on1 (old_fis ?fs1) pi' = names_ok old_names (old_fis fs) pi'"
        by (rule names_ok_cong) (use ne other in \<open>auto simp: AList.update_conv'\<close>)
      moreover have "names_ok ?nn1 (new_fis ?fs1) pi' = names_ok new_names (new_fis fs) pi'"
        by (rule names_ok_cong) (use ne other in \<open>auto simp: AList.update_conv'\<close>)
      ultimately show ?thesis using Cons.prems(2) [of pi'] that by simp
    qed
    from Cons.IH [OF dist, of ?on1 ?fs1 ?nn1] ok1
    obtain old_names' new_names' fs' where
      r: "fold_err (rename_step lib cfg) ks (?on1, ?nn1, ?fs1) = Inr (old_names', new_names', fs')"
      and s: "set (fileobjects_renamed fs')
         = set (fileobjects_renamed ?fs1) \<union> {e. \<exists>pi \<in> set ks. rename_candidate lib cfg ?fs1 pi e}"
      and gone: "\<And>k. (fst k, fst (snd k)) \<in> set ks \<and> (\<exists>e. rename_candidate lib cfg ?fs1 (fst k, fst (snd k)) e)
            \<Longrightarrow> map_of (old_fis fs') k = None \<and> map_of (new_fis fs') k = None"
      and kept: "\<And>k. \<not> ((fst k, fst (snd k)) \<in> set ks \<and> (\<exists>e. rename_candidate lib cfg ?fs1 (fst k, fst (snd k)) e))
            \<Longrightarrow> map_of (old_fis fs') k = map_of (old_fis ?fs1) k
                \<and> map_of (new_fis fs') k = map_of (new_fis ?fs1) k"
      and rest: "fileobjects_changed fs' = fileobjects_changed ?fs1"
        "fileobjects_unchanged fs' = fileobjects_unchanged ?fs1"
        "fileobjects_deleted fs' = fileobjects_deleted ?fs1"
        "old_fis_unalloc fs' = old_fis_unalloc ?fs1"
        "new_fis_unalloc fs' = new_fis_unalloc ?fs1"
      by (auto simp del: fold_err.simps)
    have 1: "fold_err (rename_step lib cfg) (pi # ks) (old_names, new_names, fs)
               = Inr (old_names', new_names', fs')"
      by (simp add: step r)
    have c: "{e. \<exists>pi \<in> set ks. rename_candidate lib cfg ?fs1 pi e}
               = {e. \<exists>pi \<in> set ks. rename_candidate lib cfg fs pi e}"
    proof -
      have "rename_candidate lib cfg ?fs1 pia ea = rename_candidate lib cfg fs pia ea"
        if "pia \<in> set ks" for pia ea
        using that fresh by (intro cand1) auto
      then show ?thesis by auto
    qed
    have u: "{e'. rename_candidate lib cfg fs pi e'} = {e}"
      using e rename_candidate_unique [OF _ e] by blast
    have 2: "set (fileobjects_renamed fs')
         = set (fileobjects_renamed fs) \<union> {e. \<exists>pi \<in> set (pi # ks). rename_candidate lib cfg fs pi e}"
      unfolding s c using u by auto
    have 3: "map_of (old_fis fs') k = None \<and> map_of (new_fis fs') k = None"
      if h: "(fst k, fst (snd k)) \<in> set (pi # ks) \<and> (\<exists>e. rename_candidate lib cfg fs (fst k, fst (snd k)) e)"
      for k
    proof (cases "(fst k, fst (snd k)) = pi")
      case True
      with fresh kept [of k] at_pi [of k] show ?thesis by auto
    next
      case False
      with h cand1 [of "(fst k, fst (snd k))"] gone [of k] show ?thesis by auto
    qed
    have 4: "map_of (old_fis fs') k = map_of (old_fis fs) k
                \<and> map_of (new_fis fs') k = map_of (new_fis fs) k"
      if h: "\<not> ((fst k, fst (snd k)) \<in> set (pi # ks) \<and> (\<exists>e. rename_candidate lib cfg fs (fst k, fst (snd k)) e))"
      for k
    proof -
      from h True have ne: "(fst k, fst (snd k)) \<noteq> pi" by auto
      with h cand1 [of "(fst k, fst (snd k))"] kept [of k] other [of k] show ?thesis by auto
    qed
    from rest have rest': "fileobjects_changed fs' = fileobjects_changed fs"
        "fileobjects_unchanged fs' = fileobjects_unchanged fs"
        "fileobjects_deleted fs' = fileobjects_deleted fs"
        "old_fis_unalloc fs' = old_fis_unalloc fs"
        "new_fis_unalloc fs' = new_fis_unalloc fs"
      by simp_all
    from 1 2 3 4 rest' show ?thesis by blast
  qed
qed





subsection \<open>Association lists as dictionaries\<close>

lemma update_fresh: "k \<notin> fst ` set al \<Longrightarrow> AList.update k v al = al @ [(k, v)]"
  by (induction al) auto

lemma delete_split:
  "distinct (map fst al) \<Longrightarrow> map_of al k = Some v \<Longrightarrow>
     \<exists>xs ys. al = xs @ (k, v) # ys \<and> AList.delete k al = xs @ ys
              \<and> k \<notin> fst ` set xs \<and> k \<notin> fst ` set ys"
proof (induction al)
  case Nil
  then show ?case by simp
next
  case (Cons a al)
  show ?case
  proof (cases "fst a = k")
    case True
    with Cons.prems have "a = (k, v)" by (cases a) auto
    moreover from Cons.prems True have "k \<notin> fst ` set al" by auto
    ultimately have "a # al = [] @ (k, v) # al \<and> AList.delete k (a # al) = [] @ al
              \<and> k \<notin> fst ` set [] \<and> k \<notin> fst ` set al"
      by (simp add: AList.delete_eq AList.delete_id [unfolded AList.delete_eq])
    then show ?thesis by blast
  next
    case False
    with Cons.prems have "distinct (map fst al)" "map_of al k = Some v" by auto
    from Cons.IH [OF this] obtain xs ys where
      "al = xs @ (k, v) # ys" "AList.delete k al = xs @ ys"
      "k \<notin> fst ` set xs" "k \<notin> fst ` set ys"
      by blast
    with False have "a # al = (a # xs) @ (k, v) # ys \<and> AList.delete k (a # al) = (a # xs) @ ys
              \<and> k \<notin> fst ` set (a # xs) \<and> k \<notin> fst ` set ys"
      by (cases a) (simp add: AList.delete_eq)
    then show ?thesis by blast
  qed
qed

lemma length_delete:
  "distinct (map fst al) \<Longrightarrow> map_of al k = Some v \<Longrightarrow> Suc (length (AList.delete k al)) = length al"
  by (drule (1) delete_split) auto

lemma keys_delete: "fst ` set (AList.delete k al) = fst ` set al - {k}"
  by (auto simp: AList.delete_eq)

lemma map_of_Some_key: "map_of al k = Some v \<Longrightarrow> k \<in> fst ` set al"
  by (auto dest: map_of_SomeD intro: rev_image_eqI)

lemma map_of_None_key: "map_of al k = None \<longleftrightarrow> k \<notin> fst ` set al"
  by (simp add: map_of_eq_None_iff)

subsection \<open>The ordinals of the volumes\<close>

lemma process_volume_matched:
  assumes "partition_offset new_obj = Some offset"
    and "map_of (old_volumes vs) (offset, lower_ftype_str lib new_obj) = Some old_vobj"
  shows "process_volume lib vs new_obj =
           Inr (vs\<lparr>old_volumes := AList.delete (offset, lower_ftype_str lib new_obj) (old_volumes vs),
                   matched_volumes :=
                     AList.update (offset, lower_ftype_str lib new_obj)
                       \<lparr>vobj = new_obj, original_volume = Some (vobj old_vobj),
                        vdiffs = compare_volume lib new_obj (vobj old_vobj), vannos = {}\<rparr>
                       (matched_volumes vs)\<rparr>)"
  using assms by (simp add: process_volume_def Let_def)

lemma process_volume_new:
  assumes "partition_offset new_obj = Some offset"
    and "map_of (old_volumes vs) (offset, lower_ftype_str lib new_obj) = None"
  shows "process_volume lib vs new_obj =
           Inr (vs\<lparr>new_volumes :=
                     AList.update (offset, lower_ftype_str lib new_obj)
                       \<lparr>vobj = new_obj, original_volume = None, vdiffs = {}, vannos = {}\<rparr>
                       (new_volumes vs),
                   volumes_encounter_order :=
                     AList.update (offset, lower_ftype_str lib new_obj)
                       (length (AList.update (offset, lower_ftype_str lib new_obj)
                                  \<lparr>vobj = new_obj, original_volume = None, vdiffs = {}, vannos = {}\<rparr>
                                  (new_volumes vs))
                        + length (old_volumes vs) + length (matched_volumes vs))
                       (volumes_encounter_order vs)\<rparr>)"
  using assms by (cases "old_volumes vs") (simp_all add: process_volume_def Let_def)

lemma process_volume_no_offset:
  "partition_offset new_obj = None \<Longrightarrow> process_volume lib vs new_obj = Inl AttributeError"
  by (simp add: process_volume_def)

lemma ordinals_ok_matched:
  assumes ok: "ordinals_ok vs"
    and old: "map_of (old_volumes vs) k = Some old_vobj"
  shows "ordinals_ok (vs\<lparr>old_volumes := AList.delete k (old_volumes vs),
                         matched_volumes := AList.update k e (matched_volumes vs)\<rparr>)"
proof -
  from ok have d: "distinct (map fst (new_volumes vs @ matched_volumes vs @ old_volumes vs))"
    by (simp add: ordinals_ok_def)
  then have dold: "distinct (map fst (old_volumes vs))" by simp
  from old have kin: "k \<in> fst ` set (old_volumes vs)" by (rule map_of_Some_key)
  with d have fresh: "k \<notin> fst ` set (matched_volumes vs)" "k \<notin> fst ` set (new_volumes vs)"
    by auto
  from delete_split [OF dold old] obtain xs ys where
    s: "old_volumes vs = xs @ (k, old_vobj) # ys" "AList.delete k (old_volumes vs) = xs @ ys"
    by blast
  have m: "AList.update k e (matched_volumes vs) = matched_volumes vs @ [(k, e)]"
    using fresh(1) by (rule update_fresh)
  let ?vs' = "vs\<lparr>old_volumes := AList.delete k (old_volumes vs),
                    matched_volumes := AList.update k e (matched_volumes vs)\<rparr>"
  have keys: "map fst (new_volumes ?vs' @ matched_volumes ?vs' @ old_volumes ?vs')
                = map fst (new_volumes vs) @ map fst (matched_volumes vs) @ [k] @ map fst xs @ map fst ys"
    by (simp add: m s(2))
  have keys0: "map fst (new_volumes vs @ matched_volumes vs @ old_volumes vs)
                = map fst (new_volumes vs) @ map fst (matched_volumes vs) @ map fst xs @ [k] @ map fst ys"
    by (simp add: s)
  have 1: "distinct (map fst (new_volumes ?vs' @ matched_volumes ?vs' @ old_volumes ?vs'))"
    using d unfolding keys keys0 by auto
  have 2: "set (map fst (volumes_encounter_order ?vs'))
             = set (map fst (new_volumes ?vs' @ matched_volumes ?vs' @ old_volumes ?vs'))"
    using ok unfolding ordinals_ok_def keys keys0 by auto
  have len: "length (new_volumes ?vs') + length (old_volumes ?vs') + length (matched_volumes ?vs')
               = length (new_volumes vs) + length (old_volumes vs) + length (matched_volumes vs)"
    using length_delete [OF dold old] by (simp add: m)
  from ok have 3: "distinct (map fst (volumes_encounter_order ?vs'))"
    and 4: "distinct (map snd (volumes_encounter_order ?vs'))"
    by (simp_all add: ordinals_ok_def)
  from ok have 5: "list_all (\<lambda>kn. snd kn \<le> length (new_volumes ?vs') + length (old_volumes ?vs')
                                         + length (matched_volumes ?vs'))
                     (volumes_encounter_order ?vs')"
    unfolding len by (simp add: ordinals_ok_def)
  show ?thesis
    unfolding ordinals_ok_def by (intro conjI) (rule 1 2 3 4 5)+
qed

lemma ordinals_ok_new:
  assumes ok: "ordinals_ok vs"
    and old: "map_of (old_volumes vs) k = None"
    and fresh: "k \<notin> fst ` set (new_volumes vs)" "k \<notin> fst ` set (matched_volumes vs)"
  shows "ordinals_ok (vs\<lparr>new_volumes := AList.update k e (new_volumes vs),
                         volumes_encounter_order :=
                           AList.update k
                             (length (AList.update k e (new_volumes vs))
                              + length (old_volumes vs) + length (matched_volumes vs))
                             (volumes_encounter_order vs)\<rparr>)"
proof -
  from old have fo: "k \<notin> fst ` set (old_volumes vs)" by (simp add: map_of_None_key)
  with ok fresh have fe: "k \<notin> fst ` set (volumes_encounter_order vs)"
    by (auto simp: ordinals_ok_def)
  have n: "AList.update k e (new_volumes vs) = new_volumes vs @ [(k, e)]"
    using fresh(1) by (rule update_fresh)
  have o: "AList.update k x (volumes_encounter_order vs) = volumes_encounter_order vs @ [(k, x)]" for x
    using fe by (rule update_fresh)
  from ok have bound: "n \<in> snd ` set (volumes_encounter_order vs) \<Longrightarrow>
      n \<le> length (new_volumes vs) + length (old_volumes vs) + length (matched_volumes vs)" for n
    by (auto simp: ordinals_ok_def list_all_iff)
  then have nf: "Suc (length (new_volumes vs) + length (old_volumes vs) + length (matched_volumes vs))
                   \<notin> snd ` set (volumes_encounter_order vs)"
    by fastforce
  let ?N = "length (new_volumes vs) + length (old_volumes vs) + length (matched_volumes vs)"
  let ?vs' = "vs\<lparr>new_volumes := AList.update k e (new_volumes vs),
                    volumes_encounter_order :=
                      AList.update k
                        (length (AList.update k e (new_volumes vs))
                         + length (old_volumes vs) + length (matched_volumes vs))
                        (volumes_encounter_order vs)\<rparr>"
  have ord: "volumes_encounter_order ?vs' = volumes_encounter_order vs @ [(k, Suc ?N)]"
    by (simp add: n o)
  have keys: "map fst (new_volumes ?vs' @ matched_volumes ?vs' @ old_volumes ?vs')
                = map fst (new_volumes vs) @ [k] @ map fst (matched_volumes vs) @ map fst (old_volumes vs)"
    by (simp add: n)
  have 1: "distinct (map fst (new_volumes ?vs' @ matched_volumes ?vs' @ old_volumes ?vs'))"
    using ok fresh fo unfolding keys by (auto simp: ordinals_ok_def)
  have 2: "set (map fst (volumes_encounter_order ?vs'))
             = set (map fst (new_volumes ?vs' @ matched_volumes ?vs' @ old_volumes ?vs'))"
    using ok unfolding keys ord by (auto simp: ordinals_ok_def)
  have 3: "distinct (map fst (volumes_encounter_order ?vs'))"
    using ok fe unfolding ord by (auto simp: ordinals_ok_def)
  have 4: "distinct (map snd (volumes_encounter_order ?vs'))"
    using ok nf unfolding ord by (auto simp: ordinals_ok_def)
  have len: "length (new_volumes ?vs') + length (old_volumes ?vs') + length (matched_volumes ?vs')
               = Suc ?N"
    by (simp add: n)
  have 5: "list_all (\<lambda>kn. snd kn \<le> length (new_volumes ?vs') + length (old_volumes ?vs')
                                         + length (matched_volumes ?vs'))
                     (volumes_encounter_order ?vs')"
    unfolding len ord using bound by (auto simp: list_all_iff intro: le_SucI)
  show ?thesis
    unfolding ordinals_ok_def by (intro conjI) (rule 1 2 3 4 5)+
qed
lemma process_volume_step:
  assumes ok: "ordinals_ok vs"
    and off: "partition_offset v = Some offset"
    and fresh: "(offset, lower_ftype_str lib v) \<notin> fst ` set (new_volumes vs) \<union> fst ` set (matched_volumes vs)"
  shows "\<exists>vs'. process_volume lib vs v = Inr vs'
           \<and> ordinals_ok vs'
           \<and> fst ` set (new_volumes vs') \<union> fst ` set (matched_volumes vs')
               = insert (offset, lower_ftype_str lib v)
                   (fst ` set (new_volumes vs) \<union> fst ` set (matched_volumes vs))
           \<and> fst ` set (old_volumes vs') = fst ` set (old_volumes vs) - {(offset, lower_ftype_str lib v)}
           \<and> (\<forall>k n. map_of (volumes_encounter_order vs) k = Some n
                  \<longrightarrow> map_of (volumes_encounter_order vs') k = Some n)
           \<and> ((offset, lower_ftype_str lib v) \<in> fst ` set (old_volumes vs)
                \<longrightarrow> volumes_encounter_order vs' = volumes_encounter_order vs)"
proof (cases "map_of (old_volumes vs) (offset, lower_ftype_str lib v)")
  case (Some old_vobj)
  let ?k = "(offset, lower_ftype_str lib v)"
  let ?e = "\<lparr>vobj = v, original_volume = Some (vobj old_vobj),
             vdiffs = compare_volume lib v (vobj old_vobj), vannos = {}\<rparr>"
  let ?vs' = "vs\<lparr>old_volumes := AList.delete ?k (old_volumes vs),
                  matched_volumes := AList.update ?k ?e (matched_volumes vs)\<rparr>"
  have 1: "process_volume lib vs v = Inr ?vs'"
    by (rule process_volume_matched [OF off Some])
  have 2: "ordinals_ok ?vs'"
    by (rule ordinals_ok_matched [OF ok Some])
  have 3: "fst ` set (new_volumes ?vs') \<union> fst ` set (matched_volumes ?vs')
               = insert ?k (fst ` set (new_volumes vs) \<union> fst ` set (matched_volumes vs))"
    by (auto simp: AList.dom_update)
  have 4: "fst ` set (old_volumes ?vs') = fst ` set (old_volumes vs) - {?k}"
    by (simp add: keys_delete)
  have 5: "\<forall>k n. map_of (volumes_encounter_order vs) k = Some n
                  \<longrightarrow> map_of (volumes_encounter_order ?vs') k = Some n"
    by simp
  have 6: "?k \<in> fst ` set (old_volumes vs) \<longrightarrow> volumes_encounter_order ?vs' = volumes_encounter_order vs"
    by simp
  show ?thesis
    by (rule exI [of _ ?vs'], intro conjI) (rule 1 2 3 4 5 6)+
next
  case None
  let ?k = "(offset, lower_ftype_str lib v)"
  let ?e = "\<lparr>vobj = v, original_volume = None, vdiffs = {}, vannos = {}\<rparr>"
  let ?vs' = "vs\<lparr>new_volumes := AList.update ?k ?e (new_volumes vs),
                  volumes_encounter_order :=
                    AList.update ?k
                      (length (AList.update ?k ?e (new_volumes vs))
                       + length (old_volumes vs) + length (matched_volumes vs))
                      (volumes_encounter_order vs)\<rparr>"
  from fresh have f: "?k \<notin> fst ` set (new_volumes vs)" "?k \<notin> fst ` set (matched_volumes vs)"
    by simp_all
  from None have fo: "?k \<notin> fst ` set (old_volumes vs)" by (simp add: map_of_None_key)
  with ok f have fe: "?k \<notin> fst ` set (volumes_encounter_order vs)"
    by (auto simp: ordinals_ok_def)
  have 1: "process_volume lib vs v = Inr ?vs'"
    by (rule process_volume_new [OF off None])
  have 2: "ordinals_ok ?vs'"
    by (rule ordinals_ok_new [OF ok None f])
  have 3: "fst ` set (new_volumes ?vs') \<union> fst ` set (matched_volumes ?vs')
               = insert ?k (fst ` set (new_volumes vs) \<union> fst ` set (matched_volumes vs))"
    by (auto simp: AList.dom_update)
  have 4: "fst ` set (old_volumes ?vs') = fst ` set (old_volumes vs) - {?k}"
    using fo by simp
  have 5: "\<forall>k n. map_of (volumes_encounter_order vs) k = Some n
                  \<longrightarrow> map_of (volumes_encounter_order ?vs') k = Some n"
    using fe by (auto simp: AList.update_conv' dest: map_of_Some_key)
  have 6: "?k \<in> fst ` set (old_volumes vs) \<longrightarrow> volumes_encounter_order ?vs' = volumes_encounter_order vs"
    using fo by simp
  show ?thesis
    by (rule exI [of _ ?vs'], intro conjI) (rule 1 2 3 4 5 6)+
qed

lemma process_obj_cases:
  "process_obj lib cfg is_pre x st =
     (case snd x of
        DFXML_parsed \<Rightarrow> Inr st
      | Volume_parsed v \<Rightarrow>
          (if fst x = End then Inr st
           else (case process_volume lib (fst st) v of
                   Inl e \<Rightarrow> Inl e
                 | Inr vs \<Rightarrow> Inr (vs, snd st)))
      | File_parsed f \<Rightarrow>
          (case process_file lib cfg is_pre (volumes_encounter_order (fst st)) (snd st) f of
             Inl e \<Rightarrow> Inl e
           | Inr fs \<Rightarrow> Inr (fst st, fs))
      | Other_parsed \<Rightarrow> Inr st)"
  by (simp add: process_obj_def)

text \<open>
  Reading a manifest whose volume keys do not repeat keeps the ordinals consistent, and
  only adds ordinals.
\<close>

lemma read_volumes:
  assumes "fold_err (process_obj lib cfg is_pre) xs (vs, fs) = Inr (vs', fs')"
    and "ordinals_ok vs"
    and "distinct (volume_keys lib xs)"
    and "set (volume_keys lib xs) \<inter> (fst ` set (new_volumes vs) \<union> fst ` set (matched_volumes vs)) = {}"
  shows "ordinals_ok vs'
         \<and> fst ` set (new_volumes vs') \<union> fst ` set (matched_volumes vs')
             = fst ` set (new_volumes vs) \<union> fst ` set (matched_volumes vs) \<union> set (volume_keys lib xs)
         \<and> fst ` set (old_volumes vs') = fst ` set (old_volumes vs) - set (volume_keys lib xs)
         \<and> (\<forall>k n. map_of (volumes_encounter_order vs) k = Some n
                \<longrightarrow> map_of (volumes_encounter_order vs') k = Some n)
         \<and> (set (volume_keys lib xs) \<subseteq> fst ` set (old_volumes vs)
              \<longrightarrow> volumes_encounter_order vs' = volumes_encounter_order vs)"
  using assms
proof (induction xs arbitrary: vs fs)
  case Nil
  then show ?case by simp
next
  case (Cons x xs)
  from Cons.prems(1) obtain vs1 fs1 where
    step: "process_obj lib cfg is_pre x (vs, fs) = Inr (vs1, fs1)"
    and rest: "fold_err (process_obj lib cfg is_pre) xs (vs1, fs1) = Inr (vs', fs')"
    by (auto split: sum.splits)
  show ?case
  proof (cases "\<exists>v offset. snd x = Volume_parsed v \<and> fst x \<noteq> End \<and> partition_offset v = Some offset")
    case True
    then obtain v offset where
      v: "snd x = Volume_parsed v" "fst x \<noteq> End" "partition_offset v = Some offset"
      by blast
    let ?k = "(offset, lower_ftype_str lib v)"
    have keys: "volume_keys lib (x # xs) = ?k # volume_keys lib xs"
      using v by simp
    from Cons.prems(4) have fresh: "?k \<notin> fst ` set (new_volumes vs) \<union> fst ` set (matched_volumes vs)"
      unfolding keys by auto
    from process_volume_step [OF Cons.prems(2) v(3) fresh] obtain vs2 where
      pv: "process_volume lib vs v = Inr vs2" and ok2: "ordinals_ok vs2"
      and nm: "fst ` set (new_volumes vs2) \<union> fst ` set (matched_volumes vs2)
               = insert ?k (fst ` set (new_volumes vs) \<union> fst ` set (matched_volumes vs))"
      and old: "fst ` set (old_volumes vs2) = fst ` set (old_volumes vs) - {?k}"
      and ext: "\<forall>k n. map_of (volumes_encounter_order vs) k = Some n
                  \<longrightarrow> map_of (volumes_encounter_order vs2) k = Some n"
      and same: "?k \<in> fst ` set (old_volumes vs) \<longrightarrow> volumes_encounter_order vs2 = volumes_encounter_order vs"
      by blast
    from step v pv have vs1: "vs1 = vs2"
      by (simp add: process_obj_cases)
    from Cons.prems(3) have d: "distinct (volume_keys lib xs)" and kf: "?k \<notin> set (volume_keys lib xs)"
      unfolding keys by simp_all
    from Cons.prems(4) kf have disj: "set (volume_keys lib xs)
        \<inter> (fst ` set (new_volumes vs2) \<union> fst ` set (matched_volumes vs2)) = {}"
      unfolding keys nm by auto
    note IH = Cons.IH [OF rest [unfolded vs1] ok2 d disj]
    note IH1 = IH [THEN conjunct1]
      and IH2 = IH [THEN conjunct2, THEN conjunct1]
      and IH3 = IH [THEN conjunct2, THEN conjunct2, THEN conjunct1]
      and IH4 = IH [THEN conjunct2, THEN conjunct2, THEN conjunct2, THEN conjunct1]
      and IH5 = IH [THEN conjunct2, THEN conjunct2, THEN conjunct2, THEN conjunct2]
    have 1: "ordinals_ok vs'" by (rule IH1)
    have 2: "fst ` set (new_volumes vs') \<union> fst ` set (matched_volumes vs')
             = fst ` set (new_volumes vs) \<union> fst ` set (matched_volumes vs) \<union> set (volume_keys lib (x # xs))"
      unfolding keys IH2 nm by auto
    have 3: "fst ` set (old_volumes vs') = fst ` set (old_volumes vs) - set (volume_keys lib (x # xs))"
      unfolding keys IH3 old by auto
    have 4: "\<forall>k n. map_of (volumes_encounter_order vs) k = Some n
                \<longrightarrow> map_of (volumes_encounter_order vs') k = Some n"
      using IH4 ext by simp
    have 5: "set (volume_keys lib (x # xs)) \<subseteq> fst ` set (old_volumes vs)
              \<longrightarrow> volumes_encounter_order vs' = volumes_encounter_order vs"
    proof
      assume a: "set (volume_keys lib (x # xs)) \<subseteq> fst ` set (old_volumes vs)"
      with same have s1: "volumes_encounter_order vs2 = volumes_encounter_order vs"
        unfolding keys by simp
      from a kf have "set (volume_keys lib xs) \<subseteq> fst ` set (old_volumes vs2)"
        unfolding keys old by auto
      with IH5 s1 show "volumes_encounter_order vs' = volumes_encounter_order vs" by simp
    qed
    show ?thesis
      by (intro conjI) (rule 1 2 3 4 5)+
  next
    case False
    have keys: "volume_keys lib (x # xs) = volume_keys lib xs"
      using False by (auto split: parsed.splits option.splits)
    have vs1: "vs1 = vs"
    proof (cases "snd x")
      case (Volume_parsed v)
      show ?thesis
      proof (cases "fst x = End")
        case True
        with step Volume_parsed show ?thesis by (simp add: process_obj_cases)
      next
        case ne: False
        with False Volume_parsed have "partition_offset v = None" by auto
        with step Volume_parsed ne show ?thesis
          by (simp add: process_obj_cases process_volume_no_offset)
      qed
    next
      case (File_parsed f)
      with step show ?thesis by (auto simp: process_obj_cases split: sum.splits)
    qed (use step in \<open>simp_all add: process_obj_cases\<close>)
    from Cons.IH [OF rest [unfolded vs1] Cons.prems(2)] Cons.prems(3,4)
    show ?thesis unfolding keys by simp
  qed
qed
subsection \<open>The appenders\<close>

lemma appender_fold:
  assumes "\<forall>kv \<in> set kvs. map_of order (fst kv) \<noteq> None"
  shows "fold_err (appender_step order) kvs app =
           (if distinct (List.map_filter (\<lambda>kv. map_of order (fst kv)) kvs)
               \<and> set (List.map_filter (\<lambda>kv. map_of order (fst kv)) kvs) \<inter> fst ` set app = {}
            then Inr (app @ List.map_filter (\<lambda>kv. map_option (\<lambda>n. (n, snd kv)) (map_of order (fst kv))) kvs)
            else Inl ValueError)"
  using assms
proof (induction kvs arbitrary: app)
  case Nil
  show ?case by (simp add: List.map_filter_simps)
next
  case (Cons kv kvs)
  from Cons.prems obtain veo where veo: "map_of order (fst kv) = Some veo" by auto
  from Cons.prems have rest: "\<forall>kv \<in> set kvs. map_of order (fst kv) \<noteq> None" by simp
  show ?case
  proof (cases "veo \<in> fst ` set app")
    case True
    then show ?thesis
      by (auto simp: appender_step_def veo List.map_filter_simps)
  next
    case False
    then have step: "appender_step order kv app = Inr (app @ [(veo, snd kv)])"
      by (simp add: appender_step_def veo)
    show ?thesis
      unfolding fold_err.simps step sum.case Cons.IH [OF rest]
      using False by (auto simp: veo List.map_filter_simps)
  qed
qed

lemma build_appenders_collision:
  assumes "set (map fst (new_volumes vs @ matched_volumes vs @ old_volumes vs))
             \<subseteq> set (map fst (volumes_encounter_order vs))"
  shows "build_appenders vs = Inl ValueError \<longleftrightarrow> \<not> distinct (walked_ordinals vs)"
proof -
  have "\<forall>kv \<in> set (new_volumes vs @ matched_volumes vs @ old_volumes vs).
          map_of (volumes_encounter_order vs) (fst kv) \<noteq> None"
    using assms by (auto simp: map_of_None_key)
  from appender_fold [OF this, of "[]"] show ?thesis
    by (simp add: build_appenders_def walked_ordinals_def)
qed

lemma map_filter_map_of_distinct:
  assumes "distinct (map fst al)" and "distinct (map snd al)"
    and "distinct ks" and "set ks \<subseteq> fst ` set al"
  shows "distinct (List.map_filter (map_of al) ks)"
  using assms(3,4)
proof (induction ks)
  case Nil
  show ?case by (simp add: List.map_filter_simps)
next
  case (Cons k ks)
  from Cons.prems obtain n where n: "map_of al k = Some n"
    by (cases "map_of al k") (auto simp: map_of_None_key)
  have "n \<notin> set (List.map_filter (map_of al) ks)"
  proof
    assume "n \<in> set (List.map_filter (map_of al) ks)"
    then obtain k' where k': "k' \<in> set ks" "map_of al k' = Some n"
      by (auto simp: List.map_filter_def)
    from n k'(2) have "(k, n) \<in> set al" "(k', n) \<in> set al"
      by (auto dest: map_of_SomeD)
    with assms(2) have "k = k'"
      by (metis assms(1) distinct_map eq_key_imp_eq_value inj_on_def prod.collapse snd_conv fst_conv)
    with k'(1) Cons.prems(1) show False by simp
  qed
  with Cons show ?case
    by (simp add: List.map_filter_simps n)
qed
subsection \<open>The exceptions of the function\<close>

lemma fold_err_Inl:
  "fold_err f xs s = Inl e \<Longrightarrow> \<exists>x \<in> set xs. \<exists>s0. f x s0 = Inl e"
  by (induction xs arbitrary: s) (auto split: sum.splits)

lemma normalize_partition_error: "normalize_partition lib order f = Inl e \<Longrightarrow> e = KeyError"
  by (auto simp: normalize_partition_def split: option.splits)

lemma process_file_error: "process_file lib cfg is_pre order fs f = Inl e \<Longrightarrow> e = KeyError"
  by (auto simp: process_file_def Let_def split: if_splits sum.splits option.splits
        dest: normalize_partition_error)

lemma process_volume_error: "process_volume lib vs v = Inl e \<Longrightarrow> e = AttributeError"
  by (auto simp: process_volume_def Let_def split: option.splits)

lemma process_obj_error: "process_obj lib cfg is_pre x st = Inl e \<Longrightarrow> e \<noteq> ValueError"
  by (auto simp: process_obj_cases split: parsed.splits if_splits sum.splits
        dest: process_file_error process_volume_error)

lemma read_manifest_error: "read_manifest lib cfg pre infile st = Inl e \<Longrightarrow> e \<noteq> ValueError"
  unfolding read_manifest_def by (auto dest!: fold_err_Inl process_obj_error)

lemma detect_renames_returns: "\<exists>fs'. detect_renames lib cfg fs = Inr fs'"
proof -
  let ?fs0 = "fs\<lparr>fileobjects_renamed := []\<rparr>"
  have "distinct (map fst (make_name_map (new_fis ?fs0)))" by (rule make_name_map_distinct)
  moreover have "names_ok (make_name_map (old_fis ?fs0)) (old_fis ?fs0) pi
                 \<and> names_ok (make_name_map (new_fis ?fs0)) (new_fis ?fs0) pi" for pi
    by (simp add: make_name_map_ok)
  ultimately obtain a b fs' where
    "fold_err (rename_step lib cfg) (map fst (make_name_map (new_fis ?fs0)))
       (make_name_map (old_fis ?fs0), make_name_map (new_fis ?fs0), ?fs0) = Inr (a, b, fs')"
    using rename_loop [of "map fst (make_name_map (new_fis ?fs0))" "make_name_map (old_fis ?fs0)"
        ?fs0 "make_name_map (new_fis ?fs0)" lib cfg]
    by blast
  then show ?thesis
    by (simp add: detect_renames_def Let_def)
qed

lemma inode_step_error: "inode_step lib cfg old_map new_map pn fs = Inl e \<Longrightarrow> e = KeyError"
  by (auto simp: inode_step_def split: option.splits)

lemma detect_error: "detect lib cfg fs = Inl e \<Longrightarrow> e = KeyError"
  using detect_renames_returns [of lib cfg fs]
  by (auto simp: detect_def detect_inode_changes_def Let_def split: sum.splits
        dest!: fold_err_Inl inode_step_error)

lemma append_file_error: "append_file ordinals x files = Inl e \<Longrightarrow> e = KeyError"
  by (auto simp: append_file_def split: option.splits if_splits)

subsection \<open>The ordinals through the two rounds\<close>

lemma foldl_update_fresh:
  "distinct (map fst (al @ bl)) \<Longrightarrow> foldl (\<lambda>ov (k, v). AList.update k v ov) al bl = al @ bl"
proof (induction bl arbitrary: al)
  case Nil
  show ?case by simp
next
  case (Cons b bl)
  obtain k v where b: "b = (k, v)" by (cases b)
  from Cons.prems have "k \<notin> fst ` set al" by (auto simp: b)
  then have u: "AList.update k v al = al @ [(k, v)]" by (rule update_fresh)
  from Cons.prems have "distinct (map fst ((al @ [(k, v)]) @ bl))" by (simp add: b)
  from Cons.IH [OF this] show ?case by (simp add: b u)
qed

lemma ordinals_ok_rotate:
  assumes "ordinals_ok vs" and "old_volumes vs = []"
  shows "ordinals_ok (rotate_volumes vs)"
    and "new_volumes (rotate_volumes vs) = []" and "matched_volumes (rotate_volumes vs) = []"
proof -
  from assms have d: "distinct (map fst (new_volumes vs @ matched_volumes vs))"
    by (simp add: ordinals_ok_def)
  have r: "rotate_volumes vs
             = vs\<lparr>old_volumes := new_volumes vs @ matched_volumes vs, new_volumes := [],
                  matched_volumes := []\<rparr>"
    by (simp add: rotate_volumes_def foldl_update_fresh [OF d])
  from assms show "ordinals_ok (rotate_volumes vs)"
    unfolding r by (simp add: ordinals_ok_def add.commute)
  show "new_volumes (rotate_volumes vs) = []" "matched_volumes (rotate_volumes vs) = []"
    unfolding r by simp_all
qed

lemma ordinals_ok_init: "ordinals_ok init_vstate"
  by (simp add: ordinals_ok_def init_vstate_def)

lemma ordinals_ok_annotate: "ordinals_ok vs \<Longrightarrow> ordinals_ok (annotate_volumes vs)"
  by (simp add: ordinals_ok_def annotate_volumes_def split_def comp_def)

lemma map_filter_fst:
  "map fst (List.map_filter (\<lambda>kv. map_option (\<lambda>n. (n, g kv)) (f kv)) kvs) = List.map_filter f kvs"
  by (induction kvs) (auto simp: List.map_filter_simps split: option.splits)

lemma map_filter_keys:
  "List.map_filter (\<lambda>kv. map_of order (fst kv)) kvs = List.map_filter (map_of order) (map fst kvs)"
  by (induction kvs) (auto simp: List.map_filter_simps split: option.splits)

lemma walked_ordinals_distinct: "ordinals_ok vs \<Longrightarrow> distinct (walked_ordinals vs)"
  unfolding walked_ordinals_def map_filter_keys
  by (rule map_filter_map_of_distinct) (auto simp: ordinals_ok_def)

lemma build_appenders_ok:
  assumes "ordinals_ok vs"
  shows "\<exists>appenders. build_appenders vs = Inr appenders \<and> map fst appenders = walked_ordinals vs"
proof -
  have "\<forall>kv \<in> set (new_volumes vs @ matched_volumes vs @ old_volumes vs).
          map_of (volumes_encounter_order vs) (fst kv) \<noteq> None"
    using assms by (auto simp: ordinals_ok_def map_of_None_key)
  from appender_fold [OF this, of "[]"] walked_ordinals_distinct [OF assms]
  show ?thesis
    by (simp add: build_appenders_def walked_ordinals_def map_filter_fst)
qed

lemma assemble_error:
  assumes "ordinals_ok vs" and "assemble cfg vs fs d = Inl e"
  shows "e = KeyError"
proof -
  from build_appenders_ok [OF ordinals_ok_annotate [OF assms(1)]] obtain appenders where
    "build_appenders (annotate_volumes vs) = Inr appenders"
    by blast
  with assms(2) show ?thesis
    by (auto simp: assemble_def split: sum.splits dest!: fold_err_Inl append_file_error)
qed

text \<open>The volumes after a round, when no volume key repeats in the manifest.\<close>

lemma read_manifest_ordinals:
  assumes "read_manifest lib cfg pre infile (vs, fs) = Inr (vs', fs')"
    and "ordinals_ok vs" and "old_volumes vs = []"
    and "distinct (volume_keys lib (iterparse lib infile))"
  shows "ordinals_ok vs'"
    and "fst ` set (old_volumes vs')
           = fst ` set (new_volumes vs @ matched_volumes vs) - set (volume_keys lib (iterparse lib infile))"
proof -
  note r = ordinals_ok_rotate [OF assms(2,3)]
  from assms(1) have f: "fold_err (process_obj lib cfg (infile = pre)) (iterparse lib infile)
                           (rotate_volumes vs, rotate_files fs) = Inr (vs', fs')"
    by (simp add: read_manifest_def)
  have disj: "set (volume_keys lib (iterparse lib infile))
      \<inter> (fst ` set (new_volumes (rotate_volumes vs)) \<union> fst ` set (matched_volumes (rotate_volumes vs))) = {}"
    by (simp add: r)
  note rv = read_volumes [OF f r(1) assms(4) disj]
  from rv show "ordinals_ok vs'" by (rule conjunct1)
  from assms(2,3) have d: "distinct (map fst (new_volumes vs @ matched_volumes vs))"
    by (simp add: ordinals_ok_def)
  have "old_volumes (rotate_volumes vs) = new_volumes vs @ matched_volumes vs"
    by (simp add: rotate_volumes_def foldl_update_fresh [OF d])
  with rv [THEN conjunct2, THEN conjunct2, THEN conjunct1]
  show "fst ` set (old_volumes vs')
           = fst ` set (new_volumes vs @ matched_volumes vs) - set (volume_keys lib (iterparse lib infile))"
    by simp
qed

lemma first_round_volumes:
  assumes "read_manifest lib cfg pre infile (init_vstate, fs) = Inr (vs', fs')"
    and "distinct (volume_keys lib (iterparse lib infile))"
  shows "ordinals_ok vs'" and "old_volumes vs' = []"
proof -
  have e: "old_volumes init_vstate = []" by (simp add: init_vstate_def)
  from read_manifest_ordinals [OF assms(1) ordinals_ok_init e assms(2)]
  show "ordinals_ok vs'" and "old_volumes vs' = []"
    by (simp_all add: init_vstate_def)
qed

lemma fold_err_two: "fold_err f [a, b] s = (case f a s of Inl e \<Rightarrow> Inl e | Inr s1 \<Rightarrow> f b s1)"
  by (simp split: sum.split)

lemma first_round:
  "round_body lib cfg pre pre (vs, fs, d) =
     (case read_manifest lib cfg pre pre (vs, fs) of
        Inl e \<Rightarrow> Inl e
      | Inr st \<Rightarrow> Inr (fst st, snd st, d))"
  by (simp add: round_body_def split: sum.split)

lemma differential_rounds:
  assumes "diff_mode cfg \<in> {''all'', ''idifference''}"
  shows "differential lib cfg pre post =
     (case read_manifest lib cfg pre pre (init_vstate, init_fstate) of
        Inl e \<Rightarrow> Inl e
      | Inr st \<Rightarrow> round_body lib cfg pre post (fst st, snd st, empty_document))"
proof -
  from assms have "\<not> diff_mode cfg \<notin> {''all'', ''idifference''}" by simp
  then have "differential lib cfg pre post
        = fold_err (round_body lib cfg pre) [pre, post] (init_vstate, init_fstate, empty_document)"
    unfolding differential_def by (simp only: if_False)
  then show ?thesis
    by (simp only: fold_err_two first_round) (simp split: sum.split)
qed

lemma differential_no_ValueError:
  assumes mode: "diff_mode cfg \<in> {''all'', ''idifference''}"
    and d1: "distinct (volume_keys lib (iterparse lib pre))"
    and d2: "distinct (volume_keys lib (iterparse lib post))"
  shows "differential lib cfg pre post \<noteq> Inl ValueError"
proof
  assume "differential lib cfg pre post = Inl ValueError"
  then have v: "(case read_manifest lib cfg pre pre (init_vstate, init_fstate) of
        Inl e \<Rightarrow> Inl e
      | Inr st \<Rightarrow> round_body lib cfg pre post (fst st, snd st, empty_document)) = Inl ValueError"
    by (simp only: differential_rounds [OF mode])
  show False
  proof (cases "read_manifest lib cfg pre pre (init_vstate, init_fstate)")
    case (Inl e)
    with v have "e = ValueError" by simp
    with Inl read_manifest_error show False by blast
  next
    case (Inr st1)
    obtain vs1 fs1 where st1: "st1 = (vs1, fs1)" by (cases st1)
    note ok1 = first_round_volumes [OF Inr [unfolded st1] d1]
    from v Inr st1 have r2: "round_body lib cfg pre post (vs1, fs1, empty_document) = Inl ValueError"
      by simp
    show False
    proof (cases "read_manifest lib cfg pre post (vs1, fs1)")
      case (Inl e)
      with r2 have "e = ValueError" by (simp add: round_body_def)
      with Inl read_manifest_error show False by blast
    next
      case (Inr st2)
      obtain vs2 fs2 where st2: "st2 = (vs2, fs2)" by (cases st2)
      from read_manifest_ordinals(1) [OF Inr [unfolded st2] ok1 d2] have ok2: "ordinals_ok vs2" .
      from r2 Inr st2 show False
        by (auto simp: round_body_def split: if_splits sum.splits
              dest: detect_error assemble_error [OF ok2])
    qed
  qed
qed
text \<open>
  C7, as the program has it. When every key of the three dictionaries of volumes has an
  ordinal, the assembler raises \<^verbatim>\<open>ValueError\<close> exactly when the ordinals it looks
  up, walking the new, the matched and the old volumes, repeat. When no volume key
  repeats within either manifest (and the differencing mode is a known one), the
  function never raises \<^verbatim>\<open>ValueError\<close>.
\<close>

theorem appenders_collision:
  "(set (map fst (new_volumes vs @ matched_volumes vs @ old_volumes vs))
        \<subseteq> set (map fst (volumes_encounter_order vs))
      \<longrightarrow> (build_appenders vs = Inl ValueError \<longleftrightarrow> \<not> distinct (walked_ordinals vs)))
   \<and> (diff_mode cfg \<in> {''all'', ''idifference''}
        \<and> distinct (volume_keys lib (iterparse lib pre))
        \<and> distinct (volume_keys lib (iterparse lib post))
      \<longrightarrow> differential lib cfg pre post \<noteq> Inl ValueError
          \<and> make_differential_dfxml lib cfg pre post \<noteq> Inl ValueError)"
proof (intro conjI impI)
  assume "set (map fst (new_volumes vs @ matched_volumes vs @ old_volumes vs))
            \<subseteq> set (map fst (volumes_encounter_order vs))"
  then show "build_appenders vs = Inl ValueError \<longleftrightarrow> \<not> distinct (walked_ordinals vs)"
    by (rule build_appenders_collision)
next
  assume a: "diff_mode cfg \<in> {''all'', ''idifference''}
        \<and> distinct (volume_keys lib (iterparse lib pre))
        \<and> distinct (volume_keys lib (iterparse lib post))"
  then show d: "differential lib cfg pre post \<noteq> Inl ValueError"
    using differential_no_ValueError [of cfg lib pre post] by blast
  then show "make_differential_dfxml lib cfg pre post \<noteq> Inl ValueError"
    by (auto simp: make_differential_dfxml_def split: sum.splits)
qed

theorem appenders_collision_witness:
  "set (map fst (new_volumes twice_vstate @ matched_volumes twice_vstate @ old_volumes twice_vstate))
        \<subseteq> set (map fst (volumes_encounter_order twice_vstate))
   \<and> walked_ordinals twice_vstate = [2, 2]
   \<and> build_appenders twice_vstate = Inl ValueError
   \<and> diff_mode default_config \<in> {''all'', ''idifference''}
   \<and> distinct (volume_keys (example_lib volumes_pre volumes_post) (iterparse (example_lib volumes_pre volumes_post) ''pre''))
   \<and> distinct (volume_keys (example_lib volumes_pre volumes_post) (iterparse (example_lib volumes_pre volumes_post) ''post''))
   \<and> make_differential_dfxml (example_lib volumes_pre volumes_post) default_config ''pre'' ''post''
        \<noteq> Inl ValueError
   \<and> (case make_differential_dfxml (example_lib volumes_pre volumes_post) default_config
              ''pre'' ''post'' of
         Inl e \<Rightarrow> False
       | Inr d \<Rightarrow> map fst (doc_volumes d) = [2, 1]
                 \<and> map (\<lambda>(n, v). vannos v) (doc_volumes d) = [{''new''}, {}])"
proof -
  have 1: "set (map fst (new_volumes twice_vstate @ matched_volumes twice_vstate @ old_volumes twice_vstate))
        \<subseteq> set (map fst (volumes_encounter_order twice_vstate))"
    by (simp add: twice_vstate_def)
  have 2: "walked_ordinals twice_vstate = [2, 2]"
    by (simp add: walked_ordinals_def twice_vstate_def List.map_filter_simps)
  have 3: "diff_mode default_config \<in> {''all'', ''idifference''}"
    by (simp add: default_config_def)
  have 4: "distinct (volume_keys (example_lib volumes_pre volumes_post) (iterparse (example_lib volumes_pre volumes_post) ''pre''))"
    by code_simp
  have 5: "distinct (volume_keys (example_lib volumes_pre volumes_post) (iterparse (example_lib volumes_pre volumes_post) ''post''))"
    by code_simp
  have 6: "(case make_differential_dfxml (example_lib volumes_pre volumes_post) default_config
              ''pre'' ''post'' of
         Inl e \<Rightarrow> False
       | Inr d \<Rightarrow> map fst (doc_volumes d) = [2, 1]
                 \<and> map (\<lambda>(n, v). vannos v) (doc_volumes d) = [{''new''}, {}])"
    by code_simp
  note t = appenders_collision [of twice_vstate default_config
      "example_lib volumes_pre volumes_post" "''pre''" "''post''"]
  from t [THEN conjunct1, rule_format, OF 1] 2
  have 7: "build_appenders twice_vstate = Inl ValueError" by simp
  from t [THEN conjunct2, rule_format, OF conjI [OF 3 conjI [OF 4 5]]]
  have 8: "make_differential_dfxml (example_lib volumes_pre volumes_post) default_config ''pre'' ''post''
        \<noteq> Inl ValueError"
    by (rule conjunct2)
  show ?thesis
    by (intro conjI) (rule 1 2 3 4 5 6 7 8)+
qed

text \<open>
  C7, as the claim has it, fails: a second manifest that lists a volume of the first
  manifest twice is input data, and the function ends with \<^verbatim>\<open>ValueError\<close>. The
  volume is in the dictionary of the matched volumes and in that of the new ones: one
  key, met twice, not two keys with one ordinal.
\<close>

theorem duplicate_volume_is_fatal:
  "make_differential_dfxml (example_lib twice_pre twice_post) default_config ''pre'' ''post''
     = Inl ValueError
   \<and> (case read_manifest (example_lib twice_pre twice_post) default_config ''pre'' ''pre''
             (init_vstate, init_fstate) of
         Inl e \<Rightarrow> False
       | Inr st \<Rightarrow>
           (case read_manifest (example_lib twice_pre twice_post) default_config ''pre'' ''post'' st of
              Inl e \<Rightarrow> False
            | Inr st' \<Rightarrow> fst st' = twice_vstate))"
  by code_simp

subsection \<open>The case of the letters of a file system type\<close>

lemma lower_ftype_str_cong:
  "str_lower lib' = str_lower lib \<Longrightarrow> lower_ftype_str lib' = lower_ftype_str lib"
  by (rule ext) (simp add: lower_ftype_str_def cong: option.case_cong)

lemma normalize_partition_cong:
  assumes "str_lower lib' = str_lower lib"
  shows "normalize_partition lib' = normalize_partition lib"
  unfolding normalize_partition_def lower_ftype_str_cong [OF assms] by (rule refl)

lemma volume_variant_key:
  assumes "volume_variant lib v w"
  shows "partition_offset w = partition_offset v" and "lower_ftype_str lib w = lower_ftype_str lib v"
proof -
  from assms obtain ft where w: "w = v\<lparr>ftype_str := ft\<rparr>"
    and r: "rel_option (same_lower lib) (ftype_str v) ft"
    unfolding volume_variant_def by blast
  show "partition_offset w = partition_offset v" by (simp add: w)
  from r show "lower_ftype_str lib w = lower_ftype_str lib v"
    by (cases "ftype_str v"; cases ft) (simp_all add: w lower_ftype_str_def same_lower_def)
qed

lemma update_keys_only:
  "map fst al = map fst bl \<Longrightarrow> map fst (AList.update k v al) = map fst (AList.update k w bl)"
  by (simp add: AList.update_keys)

lemma delete_keys_only:
  "map fst al = map fst bl \<Longrightarrow> map fst (AList.delete k al) = map fst (AList.delete k bl)"
  by (simp add: AList.delete_keys)

lemma same_keys_length: "map fst al = map fst bl \<Longrightarrow> length al = length bl"
  by (drule arg_cong [where f = length]) simp

lemma same_keys_lookup: "map fst al = map fst bl \<Longrightarrow> map_of al k = None \<longleftrightarrow> map_of bl k = None"
  unfolding map_of_eq_None_iff by (drule arg_cong [where f = set]) simp

lemma same_volume_match_refl: "same_volume_match vs vs"
  by (simp add: same_volume_match_def)

lemma process_volume_variant:
  assumes l: "str_lower lib' = str_lower lib"
    and m: "same_volume_match vs ws" and v: "volume_variant lib v w"
  shows "rel_sum (=) same_volume_match (process_volume lib vs v) (process_volume lib' ws w)"
proof (cases "partition_offset v")
  case None
  with volume_variant_key [OF v] show ?thesis
    by (simp add: process_volume_no_offset)
next
  case (Some offset)
  let ?k = "(offset, lower_ftype_str lib v)"
  from Some volume_variant_key [OF v] have w: "partition_offset w = Some offset"
    "lower_ftype_str lib' w = lower_ftype_str lib v"
    by (simp_all add: lower_ftype_str_cong [OF l])
  from m have keys: "map fst (new_volumes vs) = map fst (new_volumes ws)"
    "map fst (old_volumes vs) = map fst (old_volumes ws)"
    "map fst (matched_volumes vs) = map fst (matched_volumes ws)"
    "volumes_encounter_order vs = volumes_encounter_order ws"
    by (simp_all add: same_volume_match_def)
  show ?thesis
  proof (cases "map_of (old_volumes vs) ?k")
    case None
    with same_keys_lookup [OF keys(2), of ?k] have None': "map_of (old_volumes ws) ?k = None"
      by simp
    have l: "length (AList.update ?k a (new_volumes vs))
               = length (AList.update ?k \<lparr>vobj = w, original_volume = None, vdiffs = {}, vannos = {}\<rparr>
                          (new_volumes ws))"
      for a
      by (rule same_keys_length) (rule update_keys_only [OF keys(1)])
    show ?thesis
      unfolding process_volume_new [OF Some None] process_volume_new [OF w(1) None' [folded w(2)]] w(2)
      by (simp add: same_volume_match_def keys update_keys_only [OF keys(1)] l
            same_keys_length [OF keys(2)] same_keys_length [OF keys(3)])
  next
    case (Some a)
    with same_keys_lookup [OF keys(2), of ?k] obtain b where Some': "map_of (old_volumes ws) ?k = Some b"
      by auto
    show ?thesis
      unfolding process_volume_matched [OF \<open>partition_offset v = Some offset\<close> Some]
        process_volume_matched [OF w(1) Some' [folded w(2)]] w(2)
      by (simp add: same_volume_match_def keys update_keys_only [OF keys(3)]
            delete_keys_only [OF keys(2)])
  qed
qed

lemma normalize_partition_Inl:
  "normalize_partition lib order f = Inl e \<longleftrightarrow>
     e = KeyError
     \<and> (\<exists>vo. volume_object f = Some vo
           \<and> (case partition_offset vo of
                 None \<Rightarrow> True
               | Some offset \<Rightarrow> map_of order (offset, lower_ftype_str lib vo) = None))"
  by (auto simp: normalize_partition_def split: option.splits)

lemma glom_runs_keeps:
  "volume_object (glom_runs lib f) = volume_object f" "filename (glom_runs lib f) = filename f"
  by (simp_all add: glom_runs_def split: option.splits list.splits)

lemma process_file_Inl:
  "process_file lib cfg is_pre order fs f = Inl e \<longleftrightarrow>
     \<not> ignore_filename_function cfg (filename f) \<and> normalize_partition lib order f = Inl e"
proof -
  have n: "normalize_partition lib order (if glom_byte_runs cfg then glom_runs lib f else f) = Inl e
             \<longleftrightarrow> normalize_partition lib order f = Inl e"
    unfolding normalize_partition_Inl by (simp add: glom_runs_keeps)
  show ?thesis
    unfolding n [symmetric]
    by (auto simp: process_file_def Let_def split: if_splits sum.splits option.splits)
qed

lemma file_variant_normalize:
  assumes l: "str_lower lib' = str_lower lib" and v: "file_variant lib f g"
  shows "normalize_partition lib' order g = Inl e \<longleftrightarrow> normalize_partition lib order f = Inl e"
    and "filename g = filename f"
proof -
  from v obtain vo where g: "g = f\<lparr>volume_object := vo\<rparr>"
    and r: "rel_option (volume_variant lib) (volume_object f) vo"
    unfolding file_variant_def by blast
  show "filename g = filename f" by (simp add: g)
  have "normalize_partition lib order g = Inl e \<longleftrightarrow> normalize_partition lib order f = Inl e"
  proof (cases "volume_object f")
    case None
    with r have "vo = None" by simp
    with None show ?thesis by (simp add: normalize_partition_Inl g)
  next
    case (Some a)
    with r obtain b where b: "vo = Some b" "volume_variant lib a b"
      by (cases vo) auto
    from volume_variant_key [OF b(2)] Some b(1) show ?thesis
      by (simp add: normalize_partition_Inl g cong: option.case_cong)
  qed
  then show "normalize_partition lib' order g = Inl e
               \<longleftrightarrow> normalize_partition lib order f = Inl e"
    unfolding normalize_partition_cong [OF l] .
qed

lemma process_file_variant:
  assumes l: "str_lower lib' = str_lower lib" and v: "file_variant lib f g"
  shows "rel_sum (=) (\<lambda>a b. True) (process_file lib cfg is_pre order fs f)
           (process_file lib' cfg is_pre order gs g)"
proof (cases "process_file lib cfg is_pre order fs f")
  case (Inl e)
  then have "process_file lib' cfg is_pre order gs g = Inl e"
    unfolding process_file_Inl file_variant_normalize [OF l v] .
  with Inl show ?thesis by simp
next
  case (Inr a)
  show ?thesis
  proof (cases "process_file lib' cfg is_pre order gs g")
    case (Inl e)
    then have "process_file lib cfg is_pre order fs f = Inl e"
      unfolding process_file_Inl file_variant_normalize [OF l v] .
    with Inr show ?thesis by simp
  next
    case Inr': (Inr b)
    with Inr show ?thesis by simp
  qed
qed

lemma process_obj_variant:
  assumes l: "str_lower lib' = str_lower lib"
    and m: "same_volume_match (fst st) (fst su)" and x: "parsed_variant lib x y"
  shows "rel_sum (=) (\<lambda>a b. same_volume_match (fst a) (fst b))
           (process_obj lib cfg is_pre x st) (process_obj lib' cfg is_pre y su)"
proof (cases "snd x")
  case DFXML_parsed
  with x m show ?thesis by (simp add: parsed_variant_def process_obj_cases)
next
  case Other_parsed
  with x m show ?thesis by (simp add: parsed_variant_def process_obj_cases)
next
  case (Volume_parsed v)
  with x obtain w where y: "snd y = Volume_parsed w" "volume_variant lib v w" "fst x = fst y"
    by (auto simp: parsed_variant_def)
  from process_volume_variant [OF l m y(2)] m show ?thesis
    unfolding process_obj_cases Volume_parsed y(1) y(3)
    by (cases "process_volume lib (fst st) v"; cases "process_volume lib' (fst su) w") simp_all
next
  case (File_parsed f)
  with x obtain g where y: "snd y = File_parsed g" "file_variant lib f g"
    by (auto simp: parsed_variant_def)
  from m have o: "volumes_encounter_order (fst st) = volumes_encounter_order (fst su)"
    by (simp add: same_volume_match_def)
  from process_file_variant [OF l y(2), of cfg is_pre "volumes_encounter_order (fst su)" "snd st" "snd su"]
    m show ?thesis
    unfolding process_obj_cases File_parsed y(1) o
    by (cases "process_file lib cfg is_pre (volumes_encounter_order (fst su)) (snd st) f";
        cases "process_file lib' cfg is_pre (volumes_encounter_order (fst su)) (snd su) g") simp_all
qed

lemma fold_err_rel:
  assumes "list_all2 R xs ys" and "S s t"
    and "\<And>x y s t. R x y \<Longrightarrow> S s t \<Longrightarrow> rel_sum (=) S (f x s) (g y t)"
  shows "rel_sum (=) S (fold_err f xs s) (fold_err g ys t)"
  using assms(1,2)
proof (induction xs ys arbitrary: s t rule: list_all2_induct)
  case Nil
  then show ?case by simp
next
  case (Cons x xs y ys)
  from assms(3) [OF Cons.hyps(1) Cons.prems] Cons.IH show ?case
    by (cases "f x s"; cases "g y t") simp_all
qed

lemma foldl_update_keys:
  "map fst al = map fst bl \<Longrightarrow> map fst cl = map fst dl \<Longrightarrow>
     map fst (foldl (\<lambda>ov (k, v). AList.update k v ov) al cl)
       = map fst (foldl (\<lambda>ov (k, v). AList.update k v ov) bl dl)"
proof (induction cl arbitrary: al bl dl)
  case Nil
  then show ?case by simp
next
  case (Cons c cl)
  then obtain d dl' where dl: "dl = d # dl'" "fst c = fst d" "map fst cl = map fst dl'"
    by (cases dl) auto
  from Cons.prems(1) have "map fst (AList.update (fst c) (snd c) al)
                             = map fst (AList.update (fst c) (snd d) bl)"
    by (rule update_keys_only)
  from Cons.IH [OF this dl(3)] show ?case
    by (simp add: dl split_def)
qed

lemma rotate_volumes_variant:
  "same_volume_match vs ws \<Longrightarrow> same_volume_match (rotate_volumes vs) (rotate_volumes ws)"
proof -
  assume "same_volume_match vs ws"
  then have keys: "map fst (new_volumes vs) = map fst (new_volumes ws)"
    "map fst (matched_volumes vs) = map fst (matched_volumes ws)"
    "volumes_encounter_order vs = volumes_encounter_order ws"
    by (simp_all add: same_volume_match_def)
  show ?thesis
    using foldl_update_keys [OF keys(1,2)] keys(3)
    by (simp add: same_volume_match_def rotate_volumes_def)
qed

lemma read_manifest_variant:
  assumes "str_lower lib' = str_lower lib"
    and "list_all2 (parsed_variant lib) (iterparse lib infile) (iterparse lib' infile)"
    and "same_volume_match (fst st) (fst su)"
  shows "rel_sum (=) (\<lambda>a b. same_volume_match (fst a) (fst b))
           (read_manifest lib cfg pre infile st) (read_manifest lib' cfg pre infile su)"
  unfolding read_manifest_def
  by (rule fold_err_rel [OF assms(2)])
     (simp_all add: rotate_volumes_variant [OF assms(3)] process_obj_variant [OF assms(1)])

lemma appender_fold_ordinals:
  "fold_err (appender_step order) kvs app0 = Inr app \<Longrightarrow>
     map fst app = map fst app0 @ List.map_filter (\<lambda>kv. map_of order (fst kv)) kvs"
proof (induction kvs arbitrary: app0)
  case Nil
  then show ?case by (simp add: List.map_filter_simps)
next
  case (Cons kv kvs)
  from Cons.prems obtain veo where veo: "map_of order (fst kv) = Some veo"
    and step: "appender_step order kv app0 = Inr (app0 @ [(veo, snd kv)])"
    by (auto simp: appender_step_def split: option.splits if_splits)
  from Cons.prems step have "fold_err (appender_step order) kvs (app0 @ [(veo, snd kv)]) = Inr app"
    by simp
  from Cons.IH [OF this] show ?case
    by (simp add: List.map_filter_simps veo)
qed

lemma build_appenders_ordinals: "build_appenders vs = Inr app \<Longrightarrow> map fst app = walked_ordinals vs"
  unfolding build_appenders_def walked_ordinals_def
  by (drule appender_fold_ordinals) simp

lemma walked_ordinals_variant:
  "same_volume_match vs ws \<Longrightarrow> walked_ordinals vs = walked_ordinals ws"
  unfolding walked_ordinals_def map_filter_keys
  by (simp add: same_volume_match_def)

lemma walked_ordinals_annotate: "walked_ordinals (annotate_volumes vs) = walked_ordinals vs"
  unfolding walked_ordinals_def map_filter_keys
  by (simp add: annotate_volumes_def split_def comp_def)

lemma assemble_doc_volumes:
  "assemble cfg vs fs d0 = Inr d \<Longrightarrow> map fst (doc_volumes d) = map fst (doc_volumes d0) @ walked_ordinals vs"
  by (auto simp: assemble_def walked_ordinals_annotate split: sum.splits
        dest!: build_appenders_ordinals)

text \<open>What the function returns, in terms of the reading of the two manifests.\<close>

lemma differential_reads:
  assumes "differential lib cfg pre post = Inr (vs, fs, d)"
  shows "\<exists>fs0. fold_err (read_manifest lib cfg pre) [pre, post] (init_vstate, init_fstate) = Inr (vs, fs0)
           \<and> (if post = pre then fs = fs0 \<and> d = empty_document
               else detect lib cfg fs0 = Inr fs \<and> assemble cfg vs fs empty_document = Inr d)"
proof -
  from assms have mode: "diff_mode cfg \<in> {''all'', ''idifference''}"
    by (auto simp: differential_def split: if_splits)
  from assms obtain vs1 fs1 where
    r1: "read_manifest lib cfg pre pre (init_vstate, init_fstate) = Inr (vs1, fs1)"
    and r2: "round_body lib cfg pre post (vs1, fs1, empty_document) = Inr (vs, fs, d)"
    unfolding differential_rounds [OF mode] by (auto split: sum.splits)
  from r2 obtain vs2 fs2 where
    r3: "read_manifest lib cfg pre post (vs1, fs1) = Inr (vs2, fs2)"
    and r4: "(if post = pre then Inr (vs2, fs2, empty_document)
              else (case detect lib cfg fs2 of
                      Inl e \<Rightarrow> Inl e
                    | Inr fs'' \<Rightarrow>
                        (case assemble cfg vs2 fs'' empty_document of
                           Inl e \<Rightarrow> Inl e
                         | Inr d' \<Rightarrow> Inr (vs2, fs'', d')))) = Inr (vs, fs, d)"
    by (auto simp: round_body_def split: sum.splits)
  have f: "fold_err (read_manifest lib cfg pre) [pre, post] (init_vstate, init_fstate) = Inr (vs2, fs2)"
    by (simp add: fold_err_two r1 r3)
  show ?thesis
  proof (cases "post = pre")
    case True
    with r4 f show ?thesis by simp
  next
    case False
    with r4 obtain fs'' where "detect lib cfg fs2 = Inr fs''"
      "assemble cfg vs2 fs'' empty_document = Inr d" "vs = vs2" "fs = fs''"
      by (auto split: sum.splits)
    with f False show ?thesis by simp
  qed
qed

lemma differential_doc_volumes:
  assumes "differential lib cfg pre post = Inr (vs, fs, d)"
  shows "map fst (doc_volumes d) = (if post = pre then [] else walked_ordinals vs)"
  using differential_reads [OF assms]
  by (auto simp: empty_document_def dest!: assemble_doc_volumes split: if_splits)

text \<open>
  C9, for strings that \<^verbatim>\<open>str.lower\<close> maps to one string. When the second pair of
  manifests is the first with file system types replaced by strings of the same
  \<^verbatim>\<open>lower()\<close>, reading the two manifests ends in both runs with the same
  exception, or in both runs with the same keys in the dictionaries of new, deleted
  (old) and matched volumes and the same ordinals; and when the function returns in both
  runs, the volumes of the two documents have the same ordinals.
\<close>

theorem volume_match_case_insensitive:
  assumes "str_lower lib' = str_lower lib"
    and "\<forall>p. list_all2 (parsed_variant lib) (iterparse lib p) (iterparse lib' p)"
  shows "rel_sum (=) (\<lambda>st su. same_volume_match (fst st) (fst su))
           (fold_err (read_manifest lib cfg pre) [pre, post] (init_vstate, init_fstate))
           (fold_err (read_manifest lib' cfg pre) [pre, post] (init_vstate, init_fstate))
         \<and> (\<forall>vs fs d ws gs d'.
               differential lib cfg pre post = Inr (vs, fs, d)
               \<and> differential lib' cfg pre post = Inr (ws, gs, d')
               \<longrightarrow> same_volume_match vs ws \<and> map fst (doc_volumes d) = map fst (doc_volumes d'))"
proof -
  have reads: "rel_sum (=) (\<lambda>st su. same_volume_match (fst st) (fst su))
           (fold_err (read_manifest lib cfg pre) [pre, post] (init_vstate, init_fstate))
           (fold_err (read_manifest lib' cfg pre) [pre, post] (init_vstate, init_fstate))"
  proof (rule fold_err_rel [where R = "(=)"])
    show "list_all2 (=) [pre, post] [pre, post]" by simp
    show "same_volume_match (fst (init_vstate, init_fstate)) (fst (init_vstate, init_fstate))"
      by (rule same_volume_match_refl)
    fix x y :: string and s t :: "vstate \<times> fstate"
    assume "x = y" and "same_volume_match (fst s) (fst t)"
    with assms show "rel_sum (=) (\<lambda>st su. same_volume_match (fst st) (fst su))
                       (read_manifest lib cfg pre x s) (read_manifest lib' cfg pre y t)"
      by (simp add: read_manifest_variant)
  qed
  have "same_volume_match vs ws \<and> map fst (doc_volumes d) = map fst (doc_volumes d')"
    if a: "differential lib cfg pre post = Inr (vs, fs, d)"
      and b: "differential lib' cfg pre post = Inr (ws, gs, d')"
    for vs fs d ws gs d'
  proof -
    from differential_reads [OF a] obtain fs0 where
      "fold_err (read_manifest lib cfg pre) [pre, post] (init_vstate, init_fstate) = Inr (vs, fs0)"
      by blast
    moreover from differential_reads [OF b] obtain gs0 where
      "fold_err (read_manifest lib' cfg pre) [pre, post] (init_vstate, init_fstate) = Inr (ws, gs0)"
      by blast
    ultimately have m: "same_volume_match vs ws"
      using reads by simp
    from differential_doc_volumes [OF a] differential_doc_volumes [OF b]
      walked_ordinals_variant [OF m]
    show ?thesis using m by simp
  qed
  with reads show ?thesis by blast
qed

theorem volume_match_case_insensitive_witness:
  "str_lower (example_lib volumes_pre_variant volumes_post_variant)
     = str_lower (example_lib volumes_pre volumes_post)
   \<and> (\<forall>p. list_all2 (parsed_variant (example_lib volumes_pre volumes_post))
          (iterparse (example_lib volumes_pre volumes_post) p)
          (iterparse (example_lib volumes_pre_variant volumes_post_variant) p))
   \<and> rel_sum (=) (\<lambda>st su. same_volume_match (fst st) (fst su))
        (fold_err (read_manifest (example_lib volumes_pre volumes_post) default_config ''pre'')
           [''pre'', ''post''] (init_vstate, init_fstate))
        (fold_err (read_manifest (example_lib volumes_pre_variant volumes_post_variant)
                     default_config ''pre'')
           [''pre'', ''post''] (init_vstate, init_fstate))
   \<and> (case fold_err (read_manifest (example_lib volumes_pre_variant volumes_post_variant)
                       default_config ''pre'')
             [''pre'', ''post''] (init_vstate, init_fstate) of
         Inl e \<Rightarrow> False
       | Inr su \<Rightarrow>
           map fst (new_volumes (fst su)) = [(1024, Some ''fat16'')]
           \<and> map fst (matched_volumes (fst su)) = [(0, Some ''ntfs'')]
           \<and> old_volumes (fst su) = []
           \<and> volumes_encounter_order (fst su) = [((0, Some ''ntfs''), 1), ((1024, Some ''fat16''), 2)])"
proof -
  let ?L = "example_lib volumes_pre volumes_post"
  have l: "str_lower (example_lib volumes_pre_variant volumes_post_variant) = str_lower ?L"
    by (simp add: example_lib_def)
  have pv: "parsed_variant L (e, Volume_parsed (example_volume n s))
              (e, Volume_parsed (example_volume n t))"
    if "str_lower L s = str_lower L t" for L e n s t
  proof -
    have "volume_variant L (example_volume n s) (example_volume n t)"
      unfolding volume_variant_def
      by (rule exI [of _ "Some t"]) (simp add: example_volume_def same_lower_def that)
    then show ?thesis by (simp add: parsed_variant_def)
  qed
  have c: "ascii_lower ''ntfs'' = ascii_lower ''Ntfs''" "ascii_lower ''fat16'' = ascii_lower ''FAT16''"
    "ascii_lower ''NTFS'' = ascii_lower ''ntfs''"
    by code_simp+
  have 1: "list_all2 (parsed_variant L) volumes_pre volumes_pre_variant"
    if "str_lower L = ascii_lower" for L
    by (simp add: volumes_pre_def volumes_pre_variant_def pv that c)
  have 2: "list_all2 (parsed_variant L) volumes_post volumes_post_variant"
    if "str_lower L = ascii_lower" for L
    by (simp add: volumes_post_def volumes_post_variant_def pv that c)
  have a: "str_lower ?L = ascii_lower"
    by (simp add: example_lib_def)
  have h: "\<forall>p. list_all2 (parsed_variant ?L)
          (iterparse ?L p)
          (iterparse (example_lib volumes_pre_variant volumes_post_variant) p)"
    using 1 [OF a] 2 [OF a] by (simp add: example_lib_def)
  have r: "(case fold_err (read_manifest (example_lib volumes_pre_variant volumes_post_variant)
                       default_config ''pre'')
             [''pre'', ''post''] (init_vstate, init_fstate) of
         Inl e \<Rightarrow> False
       | Inr su \<Rightarrow>
           map fst (new_volumes (fst su)) = [(1024, Some ''fat16'')]
           \<and> map fst (matched_volumes (fst su)) = [(0, Some ''ntfs'')]
           \<and> old_volumes (fst su) = []
           \<and> volumes_encounter_order (fst su) = [((0, Some ''ntfs''), 1), ((1024, Some ''fat16''), 2)])"
    by code_simp
  from volume_match_case_insensitive [OF l h, of default_config "''pre''" "''post''", THEN conjunct1]
  show ?thesis
    by (intro conjI l h r)
qed

text \<open>
  C9, as the claim has it, fails for letters outside ASCII. With the Greek word in capital
  letters in both manifests the volume is matched; with the word in small letters in
  the second manifest, a string that differs from the first only in the case of its
  letters, \<^verbatim>\<open>lower()\<close> gives two keys, and the volume is deleted and new.
\<close>

theorem final_sigma_not_matched:
  "(case differential (greek_lib greek_capitals greek_capitals) default_config ''pre'' ''post'' of
      Inl e \<Rightarrow> False
    | Inr (vs, fs, d) \<Rightarrow>
        map fst (matched_volumes vs) = [(0, Some odos_final_sigma)]
        \<and> new_volumes vs = [] \<and> old_volumes vs = [])
   \<and> (case differential (greek_lib greek_capitals greek_small) default_config ''pre'' ''post'' of
      Inl e \<Rightarrow> False
    | Inr (vs, fs, d) \<Rightarrow>
        matched_volumes vs = []
        \<and> map fst (new_volumes vs) = [(0, Some odos_small)]
        \<and> map fst (old_volumes vs) = [(0, Some odos_final_sigma)])"
  by code_simp

subsection \<open>The file objects through the reading of a manifest\<close>






















subsection \<open>The file objects through the passes\<close>




























end
